theory Spec2Isabelle
  imports Complex_Main
begin

section \<open>Go primitives used by the launcher\<close>

text \<open>
  Go's \<^verbatim>\<open>int\<close> is modelled by \<^typ>\<open>int\<close>.  The integers computed by the functions
  below are scores, string lengths, and cell indices below \<open>Rows * Columns\<close> of a grid
  that fits the terminal (whose size the system reports in 16 bits), all far away from
  the 64-bit limits, so no wrap-around is written out.  Go's integer division truncates
  towards zero, unlike \<^term>\<open>(div)\<close> on \<^typ>\<open>int\<close>, which floors.
\<close>

definition go_quot :: "int \<Rightarrow> int \<Rightarrow> int" where
  "go_quot a b = sgn a * sgn b * (\<bar>a\<bar> div \<bar>b\<bar>)"

subsection \<open>Strings\<close>

text \<open>
  A Go string is a sequence of bytes, here a \<^typ>\<open>string\<close>; \<^verbatim>\<open>len\<close> is
  \<^const>\<open>length\<close>.  The functions of package \<^verbatim>\<open>strings\<close> that the launcher calls are
  written out below.  \<open>Index\<close> returns \<open>None\<close> where Go returns \<open>-1\<close>.
\<close>

definition HasPrefix :: "string \<Rightarrow> string \<Rightarrow> bool" where
  "HasPrefix s p = (take (length p) s = p)"

definition HasSuffix :: "string \<Rightarrow> string \<Rightarrow> bool" where
  "HasSuffix s p = (length p \<le> length s \<and> drop (length s - length p) s = p)"

definition TrimPrefix :: "string \<Rightarrow> string \<Rightarrow> string" where
  "TrimPrefix s p = (if HasPrefix s p then drop (length p) s else s)"

definition TrimSuffix :: "string \<Rightarrow> string \<Rightarrow> string" where
  "TrimSuffix s p = (if HasSuffix s p then take (length s - length p) s else s)"

fun Index :: "string \<Rightarrow> string \<Rightarrow> nat option" where
  "Index [] sub = (if sub = [] then Some 0 else None)"
| "Index (c # s) sub =
     (if HasPrefix (c # s) sub then Some 0 else map_option Suc (Index s sub))"

definition Contains :: "string \<Rightarrow> string \<Rightarrow> bool" where
  "Contains s sub = (Index s sub \<noteq> None)"

text \<open>\<^verbatim>\<open>strings.ReplaceAll(s, old, "")\<close> for a one-byte \<open>old\<close>.\<close>

definition RemoveAll :: "string \<Rightarrow> char \<Rightarrow> string" where
  "RemoveAll s old = filter (\<lambda>c. c \<noteq> old) s"

text \<open>
  \<^verbatim>\<open>strings.Split(s, sep)\<close> for a one-byte separator: one more field than there are
  separators, so the empty string gives one empty field.
\<close>

fun Split :: "string \<Rightarrow> char \<Rightarrow> string list" where
  "Split [] sep = [[]]"
| "Split (c # s) sep =
     (if c = sep then [] # Split s sep
      else (case Split s sep of [] \<Rightarrow> [[c]] | w # ws \<Rightarrow> (c # w) # ws))"

text \<open>\<^verbatim>\<open>strings.SplitN(s, sep, 2)\<close> for a one-byte separator: cut at the first one.\<close>

definition SplitN2 :: "string \<Rightarrow> char \<Rightarrow> string list" where
  "SplitN2 s sep =
     (if sep \<in> set s then [takeWhile (\<lambda>c. c \<noteq> sep) s, tl (dropWhile (\<lambda>c. c \<noteq> sep) s)]
      else [s])"

text \<open>\<^verbatim>\<open>strings.Trim(s, cutset)\<close> for a one-byte cutset.\<close>

definition Trim :: "string \<Rightarrow> char \<Rightarrow> string" where
  "Trim s q = rev (dropWhile (\<lambda>c. c = q) (rev (dropWhile (\<lambda>c. c = q) s)))"

text \<open>
  \<^verbatim>\<open>strings.TrimSpace\<close> on the bytes below \<open>0x80\<close>: it removes the six ASCII white-space
  bytes from both ends.  Go also treats some multi-byte code points as space; the
  function is applied to the output of the package manager and to the hint files the
  program writes, which are ASCII.
\<close>

definition isSpace :: "char \<Rightarrow> bool" where
  "isSpace c = (c = CHR '' '' \<or> (9 \<le> (of_char c :: nat) \<and> (of_char c :: nat) \<le> 13))"

definition TrimSpace :: "string \<Rightarrow> string" where
  "TrimSpace s = rev (dropWhile isSpace (rev (dropWhile isSpace s)))"



text \<open>
  \<^verbatim>\<open>utf8.DecodeRuneInString\<close>, the size it returns: the length of the UTF-8 sequence the
  string starts with, and 1 for a byte that starts no well-formed sequence.
\<close>

definition contByte :: "char \<Rightarrow> bool" where
  "contByte c = (128 \<le> (of_char c :: nat) \<and> (of_char c :: nat) \<le> 191)"

definition runeSize :: "string \<Rightarrow> nat" where
  "runeSize s =
     (case s of [] \<Rightarrow> 0
      | s0 # r \<Rightarrow>
         let b = (of_char s0 :: nat) in
         if b < 194 \<or> 244 < b then 1
         else
           let sz = (if b < 224 then 2 else if b < 240 then 3 else 4 :: nat);
               lo = (if b = 224 then 160 else if b = 240 then 144 else 128 :: nat);
               hi = (if b = 237 then 159 else if b = 244 then 143 else 191 :: nat)
           in if length s < sz then 1
              else if (of_char (s ! 1) :: nat) < lo \<or> hi < (of_char (s ! 1) :: nat) then 1
              else if sz \<le> 2 then 2
              else if \<not> contByte (s ! 2) then 1
              else if sz \<le> 3 then 3
              else if \<not> contByte (s ! 3) then 1
              else 4)"

text \<open>
  \<^verbatim>\<open>strings.Split(s, "")\<close> explodes the string into its UTF-8 sequences, one string per
  code point (and one per stray byte).  The fuel is the number of bytes left, which
  bounds the number of sequences.
\<close>

fun explodeFrom :: "nat \<Rightarrow> string \<Rightarrow> string list" where
  "explodeFrom 0 s = []"
| "explodeFrom (Suc n) s =
     (if s = [] then []
      else take (runeSize s) s # explodeFrom n (drop (runeSize s) s))"

definition explode :: "string \<Rightarrow> string list" where
  "explode s = explodeFrom (length s) s"

text \<open>
  \<^verbatim>\<open>strconv.Atoi\<close> with the error dropped, as \<^verbatim>\<open>res, _ := strconv.Atoi(...)\<close> does:
  an optional sign and decimal digits; 0 on a syntax error; the nearest 64-bit bound
  when the digits are out of range.
\<close>

definition isDigit :: "char \<Rightarrow> bool" where
  "isDigit c = (48 \<le> (of_char c :: nat) \<and> (of_char c :: nat) \<le> 57)"

definition digitsVal :: "string \<Rightarrow> int" where
  "digitsVal ds = foldl (\<lambda>acc c. 10 * acc + (int (of_char c) - 48)) 0 ds"

definition Atoi :: "string \<Rightarrow> int" where
  "Atoi s =
     (let neg = (s \<noteq> [] \<and> hd s = CHR ''-'');
          ds = (if s \<noteq> [] \<and> (hd s = CHR ''-'' \<or> hd s = CHR ''+'') then tl s else s)
      in if ds = [] \<or> \<not> list_all isDigit ds then 0
         else if neg then max (- (2 ^ 63)) (- digitsVal ds)
         else min (2 ^ 63 - 1) (digitsVal ds))"

section \<open>internal/config: configuration structs\<close>

record GridConfig =
  Rows :: int
  Columns :: int

record StyleConfig =
  Border :: bool
  Padding :: int

record BehaviorConfig =
  CloseOnLaunch :: bool

record AppConfig =
  Name :: string
  Icon :: string
  Package :: string
  Activity :: string
  Command :: string

record Config =
  Display :: "string list"
  Grid :: GridConfig
  Style :: StyleConfig
  Behavior :: BehaviorConfig
  Apps :: "AppConfig list"

definition IsCommand :: "AppConfig \<Rightarrow> bool" where
  "IsCommand a = (Command a \<noteq> [])"

text \<open>
  \<^verbatim>\<open>GetDisplayApps\<close>: all apps when \<^verbatim>\<open>Display\<close> is empty, else the apps named there, in
  that order; of two apps with one name the later one is kept.
\<close>

definition GetDisplayApps :: "Config \<Rightarrow> AppConfig list" where
  "GetDisplayApps c =
     (if Display c = [] then Apps c
      else List.map_filter (map_of (rev (map (\<lambda>app. (Name app, app)) (Apps c)))) (Display c))"

section \<open>internal/sys: identity resolver\<close>

text \<open>
  Errors are values.  \<open>ExternalToolFailure\<close> stands for a failed command
  (\<^verbatim>\<open>pm\<close>, \<^verbatim>\<open>aapt2\<close>, \<^verbatim>\<open>rish\<close>), \<open>NotFound\<close> for a search that found nothing,
  \<open>OpenFailure\<close> for an archive that cannot be opened, \<open>WriteFailure\<close> for a file that
  cannot be written, \<open>IndexOutOfRange\<close> for the run-time panic of a slice index out of
  range.
\<close>

datatype error = ExternalToolFailure | NotFound | OpenFailure | WriteFailure | IndexOutOfRange

subsection \<open>calculateMatchScore\<close>

definition calculateMatchScore :: "string \<Rightarrow> string \<Rightarrow> int" where
  "calculateMatchScore pkg search =
     (let pkgNoDots = RemoveAll pkg CHR ''.'' in
      if pkgNoDots = search then 100
      else
        let score = 0;
            score = (if Contains pkgNoDots search then score + 50 else score);
            score = (if Contains search pkgNoDots then score + 30 else score);
            score = foldl (\<lambda>score part.
                       if length part > 2 \<and> Contains pkgNoDots part then score + 5 else score)
                     score (explode search)
        in score - go_quot (int (length pkg)) 10)"

subsection \<open>AutoDetectPackage\<close>









definition isASCII :: "string \<Rightarrow> bool" where
  "isASCII s = list_all (\<lambda>c. (of_char c :: nat) < 128) s"

text \<open>
  Two strings outside ASCII: the three bytes of U+65E5, and fifteen copies of them.
\<close>

definition sunChar :: string where
  "sunChar = [CHR 0xE6, CHR 0x97, CHR 0xA5]"

definition sunName :: string where
  "sunName = concat (replicate 15 sunChar)"



subsection \<open>parseMainActivity\<close>

text \<open>
  The activity name of a line such as \<^verbatim>\<open>Activity #0: com.package.name/.ActivityName\<close>;
  empty when the line does not have that shape.
\<close>

definition parseActivityName :: "string \<Rightarrow> string \<Rightarrow> string" where
  "parseActivityName line pkg =
     (case Index line pkg of
        None \<Rightarrow> []
      | Some idx \<Rightarrow>
         let rest = drop idx line;
             rest = (case Index rest '' '' of None \<Rightarrow> rest | Some spaceIdx \<Rightarrow> take spaceIdx rest)
         in if Contains rest ''/'' then
              (let parts = Split rest CHR ''/'' in
               if length parts = 2 then
                 (if HasPrefix (parts ! 1) ''.'' then parts ! 0 @ parts ! 1 else parts ! 1)
               else [])
            else [])"

text \<open>
  The scan over the trimmed lines, on the state \<open>(inMainFilter, currentActivity)\<close>.  The
  result is the activity, or the empty string when none is found.
\<close>

fun scanActivities :: "string \<Rightarrow> string list \<Rightarrow> bool \<Rightarrow> string \<Rightarrow> string" where
  "scanActivities pkg [] inMainFilter currentActivity =
     (if inMainFilter \<and> currentActivity \<noteq> [] then currentActivity else [])"
| "scanActivities pkg (l # ls) inMainFilter currentActivity =
     (let line = TrimSpace l in
      if HasPrefix line ''Activity #'' \<and> inMainFilter \<and> currentActivity \<noteq> []
      then currentActivity
      else
        let inMainFilter = (if HasPrefix line ''Activity #'' then False else inMainFilter);
            currentActivity = (if HasPrefix line ''Activity #''
                               then parseActivityName line pkg else currentActivity);
            inMainFilter = (if Contains line ''android.intent.action.MAIN''
                            then True else inMainFilter)
        in if Contains line ''android.intent.category.LAUNCHER'' \<and> inMainFilter
              \<and> currentActivity \<noteq> []
           then currentActivity
           else scanActivities pkg ls inMainFilter currentActivity)"

definition parseMainActivity :: "string \<Rightarrow> string \<Rightarrow> string" where
  "parseMainActivity output pkg = scanActivities pkg (Split output CHR ''\<newline>'') False []"

text \<open>
  A dump with two components: the first declares the main action only, the second both
  the main action and the launcher category.
\<close>

definition twoActivitiesDump :: string where
  "twoActivitiesDump =
     ''Activity #0: com.x/.Settings filter 1a'' @ [CHR ''\<newline>''] @
     ''  Action: android.intent.action.MAIN'' @ [CHR ''\<newline>''] @
     ''Activity #1: com.x/.Home filter 2b'' @ [CHR ''\<newline>''] @
     ''  Action: android.intent.action.MAIN'' @ [CHR ''\<newline>''] @
     ''  Category: android.intent.category.LAUNCHER'' @ [CHR ''\<newline>'']"

text \<open>A dump whose only main/launcher component is the last one, cut off after it.\<close>

definition lastActivityDump :: string where
  "lastActivityDump =
     ''Activity #0: com.x/.Settings filter 1a'' @ [CHR ''\<newline>''] @
     ''  Action: android.intent.action.VIEW'' @ [CHR ''\<newline>''] @
     ''Activity #1: com.x/.Home filter 2b'' @ [CHR ''\<newline>''] @
     ''  Category: android.intent.category.LAUNCHER'' @ [CHR ''\<newline>''] @
     ''  Action: android.intent.action.MAIN''"

section \<open>internal/graphics: icon extraction\<close>

subsection \<open>getIconPathFromAAPT2\<close>

definition quoteChar :: char where
  "quoteChar = CHR 0x27"

text \<open>
  The body of the first loop: the icon of an \<^verbatim>\<open>application:\<close> line, when the line has
  an \<^verbatim>\<open>icon='...'\<close> assignment whose path ends in \<^verbatim>\<open>.xml\<close> (the \<^verbatim>\<open>.png\<close> path is
  returned in its place) or in \<^verbatim>\<open>.png\<close>.  \<open>None\<close> where the loop goes on to the next line.
\<close>

definition applicationIcon :: "string \<Rightarrow> string option" where
  "applicationIcon line =
     (if \<not> HasPrefix line ''application:'' then None
      else
        (case Index line (''icon='' @ [quoteChar]) of
           None \<Rightarrow> None
         | Some idx \<Rightarrow>
            let start = idx + 6 in
            (case Index (drop start line) [quoteChar] of
               None \<Rightarrow> None
             | Some end \<Rightarrow>
                let iconPath = take end (drop start line) in
                if HasSuffix iconPath ''.xml'' then Some (TrimSuffix iconPath ''.xml'' @ ''.png'')
                else if HasSuffix iconPath ''.png'' then Some iconPath
                else None)))"

fun applicationLoop :: "string list \<Rightarrow> string option" where
  "applicationLoop [] = None"
| "applicationLoop (line # lines) =
     (case applicationIcon line of Some p \<Rightarrow> Some p | None \<Rightarrow> applicationLoop lines)"

text \<open>
  The head of the second loop's body: the density and the path of an
  \<^verbatim>\<open>application-icon-<density>:'<path>'\<close> line; \<open>None\<close> where the loop skips the line.
\<close>

definition parseIconLine :: "string \<Rightarrow> (int \<times> string) option" where
  "parseIconLine line =
     (if \<not> HasPrefix line ''application-icon-'' then None
      else
        let parts = SplitN2 line CHR '':'' in
        if length parts \<noteq> 2 then None
        else
          let resPart = TrimPrefix (parts ! 0) ''application-icon-'';
              res = Atoi resPart;
              path = Trim (parts ! 1) quoteChar
          in Some (res, path))"

text \<open>The rest of the body, on the state \<open>(highestResIcon, highestRes)\<close>.\<close>

definition iconLineStep :: "string \<times> int \<Rightarrow> string \<Rightarrow> string \<times> int" where
  "iconLineStep st line =
     (case st of (highestResIcon, highestRes) \<Rightarrow>
        (case parseIconLine line of
           None \<Rightarrow> (highestResIcon, highestRes)
         | Some (res, path) \<Rightarrow>
            if HasSuffix path ''.png'' then
              (if res > highestRes then (path, res) else (highestResIcon, highestRes))
            else if HasSuffix path ''.xml'' \<and> highestResIcon = [] then
              (TrimSuffix path ''.xml'' @ ''.png'', res)
            else (highestResIcon, highestRes)))"

text \<open>
  \<open>getIconPathFromAAPT2 aapt\<close>, where \<open>aapt\<close> is what \<^verbatim>\<open>aapt2 dump badging\<close> gives for the
  archive: its output, or an error.
\<close>

definition getIconPathFromAAPT2 :: "error + string \<Rightarrow> error + string" where
  "getIconPathFromAAPT2 aapt =
     (case aapt of
        Inl e \<Rightarrow> Inl ExternalToolFailure
      | Inr output \<Rightarrow>
         let lines = Split output CHR ''\<newline>'' in
         (case applicationLoop lines of
            Some p \<Rightarrow> Inr p
          | None \<Rightarrow>
             (case foldl iconLineStep ([], 0) lines of
                (highestResIcon, highestRes) \<Rightarrow>
                  if highestResIcon = [] then Inl NotFound else Inr highestResIcon)))"

text \<open>
  For the statements about the second loop.  A declaration is what an
  \<^verbatim>\<open>application-icon-\<close> line contributes: its density, the path it would leave in
  \<^verbatim>\<open>highestResIcon\<close>, and whether it is a \<^verbatim>\<open>.png\<close> declaration (else a \<^verbatim>\<open>.xml\<close> one).
  \<open>declStep\<close> is the loop body on declarations.  The declarations that compete are the
  first one and the \<^verbatim>\<open>.png\<close> declarations after it.
\<close>

definition iconDecl :: "string \<Rightarrow> (int \<times> string \<times> bool) option" where
  "iconDecl line =
     (case parseIconLine line of
        None \<Rightarrow> None
      | Some (res, path) \<Rightarrow>
         if HasSuffix path ''.png'' then Some (res, path, True)
         else if HasSuffix path ''.xml'' then Some (res, TrimSuffix path ''.xml'' @ ''.png'', False)
         else None)"

definition iconDecls :: "string list \<Rightarrow> (int \<times> string \<times> bool) list" where
  "iconDecls lines = List.map_filter iconDecl lines"

definition competingDecls :: "(int \<times> string \<times> bool) list \<Rightarrow> (int \<times> string \<times> bool) list" where
  "competingDecls ds = (case ds of [] \<Rightarrow> [] | d # rest \<Rightarrow> d # filter (\<lambda>d. snd (snd d)) rest)"


definition declStep :: "string \<times> int \<Rightarrow> int \<times> string \<times> bool \<Rightarrow> string \<times> int" where
  "declStep st d =
     (if snd (snd d) then (if fst d > snd st then (fst (snd d), fst d) else st)
      else if fst st = [] then (fst (snd d), fst d) else st)"

subsection \<open>Outputs of the archive tool\<close>

definition iconLine :: "string \<Rightarrow> string \<Rightarrow> string" where
  "iconLine key path = key @ '':'' @ [quoteChar] @ path @ [quoteChar]"

definition topLevelLine :: "string \<Rightarrow> string" where
  "topLevelLine path = ''application: label='' @ [quoteChar] @ ''App'' @ [quoteChar]
     @ '' icon='' @ [quoteChar] @ path @ [quoteChar] @ '' banner='' @ [quoteChar] @ [quoteChar]"

definition unlines :: "string list \<Rightarrow> string" where
  "unlines ls = concat (map (\<lambda>l. l @ [CHR ''\<newline>'']) ls)"

definition aaptMixed :: string where
  "aaptMixed = unlines
     [iconLine ''application-icon-160'' ''res/mipmap-mdpi-v4/ic_launcher.png'',
      iconLine ''application-icon-65534'' ''res/mipmap-anydpi-v26/ic_launcher.xml'']"

definition aaptVectors :: string where
  "aaptVectors = unlines
     [iconLine ''application-icon-160'' ''res/a.xml'',
      iconLine ''application-icon-640'' ''res/b.xml'']"

definition aaptWebp :: string where
  "aaptWebp = unlines
     [topLevelLine ''res/icon.webp'',
      iconLine ''application-icon-160'' ''res/a.png'']"

definition aaptRasters :: string where
  "aaptRasters = unlines
     [iconLine ''application-icon-160'' ''res/a.png'',
      iconLine ''application-icon-640'' ''res/b.png'',
      iconLine ''application-icon-640'' ''res/c.png'']"

definition aaptTopLevel :: string where
  "aaptTopLevel = unlines
     [iconLine ''application-icon-640'' ''res/b.png'',
      topLevelLine ''res/top.xml'']"

subsection \<open>extractIconFromAPK\<close>

text \<open>
  An entry of the archive: what opening and decoding it gives (\<open>None\<close> when either
  fails) and its uncompressed size.  The archive is the list \<^verbatim>\<open>r.File\<close>; the loop that
  fills \<^verbatim>\<open>fileMap\<close> lets a later entry replace an earlier one of the same name.
\<close>

record 'img ZipFile =
  decoded :: "'img option"
  UncompressedSize64 :: nat

definition fileMapOf :: "(string \<times> 'img ZipFile) list \<Rightarrow> (string \<rightharpoonup> 'img ZipFile)" where
  "fileMapOf files = map_of (rev files)"

definition mipmapPatterns :: "string list" where
  "mipmapPatterns =
     [''res/mipmap-xxxhdpi-v4/ic_launcher.webp'',
      ''res/mipmap-xxxhdpi/ic_launcher.webp'',
      ''res/mipmap-xxhdpi-v4/ic_launcher.webp'',
      ''res/mipmap-xxhdpi/ic_launcher.webp'',
      ''res/mipmap-xhdpi-v4/ic_launcher.webp'',
      ''res/mipmap-xhdpi/ic_launcher.webp'',
      ''res/mipmap-hdpi-v4/ic_launcher.webp'',
      ''res/mipmap-hdpi/ic_launcher.webp'',
      ''res/mipmap-mdpi-v4/ic_launcher.webp'',
      ''res/mipmap-mdpi/ic_launcher.webp'',
      ''res/mipmap/ic_launcher.webp'',
      ''res/mipmap-xxxhdpi-v4/ic_launcher.png'',
      ''res/mipmap-xxxhdpi/ic_launcher.png'',
      ''res/mipmap-xxhdpi-v4/ic_launcher.png'',
      ''res/mipmap-xxhdpi/ic_launcher.png'',
      ''res/mipmap-xhdpi-v4/ic_launcher.png'',
      ''res/mipmap-xhdpi/ic_launcher.png'',
      ''res/mipmap-hdpi-v4/ic_launcher.png'',
      ''res/mipmap-hdpi/ic_launcher.png'',
      ''res/mipmap-mdpi-v4/ic_launcher.png'',
      ''res/mipmap-mdpi/ic_launcher.png'',
      ''res/mipmap/ic_launcher.png'',
      ''res/mipmap-xxxhdpi-v4/app_icon.webp'',
      ''res/mipmap-xxxhdpi/app_icon.webp'',
      ''res/mipmap-xxhdpi-v4/app_icon.webp'',
      ''res/mipmap-xxhdpi/app_icon.webp'',
      ''res/mipmap-xhdpi-v4/app_icon.webp'',
      ''res/mipmap-xhdpi/app_icon.webp'',
      ''res/mipmap-hdpi-v4/app_icon.webp'',
      ''res/mipmap-hdpi/app_icon.webp'',
      ''res/mipmap-mdpi-v4/app_icon.webp'',
      ''res/mipmap-mdpi/app_icon.webp'',
      ''res/mipmap/app_icon.webp'',
      ''res/mipmap-xxxhdpi-v4/app_icon.png'',
      ''res/mipmap-xxxhdpi/app_icon.png'',
      ''res/mipmap-xxhdpi-v4/app_icon.png'',
      ''res/mipmap-xxhdpi/app_icon.png'',
      ''res/mipmap-xhdpi-v4/app_icon.png'',
      ''res/mipmap-xhdpi/app_icon.png'',
      ''res/mipmap-hdpi-v4/app_icon.png'',
      ''res/mipmap-hdpi/app_icon.png'',
      ''res/mipmap-mdpi-v4/app_icon.png'',
      ''res/mipmap-mdpi/app_icon.png'',
      ''res/mipmap/app_icon.png'']"

definition drawablePatterns :: "string list" where
  "drawablePatterns =
     [''res/drawable-xxxhdpi-v4/ic_launcher.png'',
      ''res/drawable-xxxhdpi/ic_launcher.png'',
      ''res/drawable-xxhdpi-v4/ic_launcher.png'',
      ''res/drawable-xxhdpi/ic_launcher.png'',
      ''res/drawable-xhdpi-v4/ic_launcher.png'',
      ''res/drawable-xhdpi/ic_launcher.png'',
      ''res/drawable-hdpi-v4/ic_launcher.png'',
      ''res/drawable-hdpi/ic_launcher.png'',
      ''res/drawable-mdpi-v4/ic_launcher.png'',
      ''res/drawable-mdpi/ic_launcher.png'',
      ''res/drawable/ic_launcher.png'',
      ''res/drawable-xxxhdpi-v4/ic_launcher.webp'',
      ''res/drawable-xxxhdpi/ic_launcher.webp'',
      ''res/drawable-xxhdpi-v4/ic_launcher.webp'',
      ''res/drawable-xxhdpi/ic_launcher.webp'',
      ''res/drawable-xhdpi-v4/ic_launcher.webp'',
      ''res/drawable-xhdpi/ic_launcher.webp'',
      ''res/drawable-hdpi-v4/ic_launcher.webp'',
      ''res/drawable-hdpi/ic_launcher.webp'',
      ''res/drawable-mdpi-v4/ic_launcher.webp'',
      ''res/drawable-mdpi/ic_launcher.webp'',
      ''res/drawable/ic_launcher.webp'']"

text \<open>
  \<^verbatim>\<open>if f, ok := fileMap[path]; ok\<close>, then open, then decode: the image, or \<open>None\<close> when
  the entry is missing, cannot be opened or cannot be decoded.
\<close>

definition decodeEntry :: "(string \<rightharpoonup> 'img ZipFile) \<Rightarrow> string \<Rightarrow> 'img option" where
  "decodeEntry fileMap path = (case fileMap path of None \<Rightarrow> None | Some f \<Rightarrow> decoded f)"

fun firstDecodable :: "(string \<rightharpoonup> 'img ZipFile) \<Rightarrow> string list \<Rightarrow> ('img \<times> string) option" where
  "firstDecodable fileMap [] = None"
| "firstDecodable fileMap (pattern # patterns) =
     (case decodeEntry fileMap pattern of
        Some img \<Rightarrow> Some (img, pattern)
      | None \<Rightarrow> firstDecodable fileMap patterns)"

text \<open>
  Strategies 2 and 3 share their shape: with a path from the tool, decode the entry at
  the path, else, for an \<^verbatim>\<open>.xml\<close> path, the entry at the \<^verbatim>\<open>.png\<close> path.
\<close>

definition decodeToolPath :: "(string \<rightharpoonup> 'img ZipFile) \<Rightarrow> error + string \<Rightarrow> ('img \<times> string) option" where
  "decodeToolPath fileMap tool =
     (case tool of
        Inl e \<Rightarrow> None
      | Inr iconPath \<Rightarrow>
         if iconPath = [] then None
         else
           (case decodeEntry fileMap iconPath of
              Some img \<Rightarrow> Some (img, iconPath)
            | None \<Rightarrow>
               if HasSuffix iconPath ''.xml'' then
                 (let pngPath = TrimSuffix iconPath ''.xml'' @ ''.png'' in
                  case decodeEntry fileMap pngPath of
                    Some img \<Rightarrow> Some (img, pngPath)
                  | None \<Rightarrow> None)
               else None))"

text \<open>
  Strategy 5, the loop over \<^verbatim>\<open>fileMap\<close> on the state \<open>(largestMipmap, largestMipmapSize,
  largestMipmapName)\<close>.  Go visits the keys of a map in an unspecified order; \<open>names\<close> is
  the order of this visit.
\<close>

definition largestStep ::
  "(string \<rightharpoonup> 'img ZipFile) \<Rightarrow> 'img ZipFile option \<times> nat \<times> string \<Rightarrow> string
     \<Rightarrow> 'img ZipFile option \<times> nat \<times> string" where
  "largestStep fileMap st name =
     (case st of (largestMipmap, largestMipmapSize, largestMipmapName) \<Rightarrow>
        (case fileMap name of
           None \<Rightarrow> st
         | Some f \<Rightarrow>
            if Contains name ''mipmap'' \<and> (HasSuffix name ''.png'' \<or> HasSuffix name ''.webp'')
               \<and> UncompressedSize64 f > largestMipmapSize
            then (Some f, UncompressedSize64 f, name)
            else st))"

definition largestMipmapImage ::
  "(string \<rightharpoonup> 'img ZipFile) \<Rightarrow> string list \<Rightarrow> ('img \<times> string) option" where
  "largestMipmapImage fileMap names =
     (case foldl (largestStep fileMap) (None, 0, []) names of
        (None, _, _) \<Rightarrow> None
      | (Some f, _, name) \<Rightarrow>
         (case decoded f of None \<Rightarrow> None | Some img \<Rightarrow> Some (img, name)))"

text \<open>
  \<open>extractIconFromAPK apkPath pkg apk names adb aapt\<close>: \<open>apk\<close> is what opening the archive
  at \<open>apkPath\<close> gives, \<open>names\<close> the order in which the map of its entries is visited,
  \<open>adb\<close> the result of \<^verbatim>\<open>getIconPathViaADB(pkg)\<close> and \<open>aapt\<close> the outcome of running the
  archive tool on \<open>apkPath\<close>.  The result is the image and the path it was found at.
\<close>

definition extractIconFromAPK ::
  "string \<Rightarrow> string \<Rightarrow> error + (string \<times> 'img ZipFile) list \<Rightarrow> string list
     \<Rightarrow> error + string \<Rightarrow> error + string \<Rightarrow> error + ('img \<times> string)" where
  "extractIconFromAPK apkPath pkg apk names adb aapt =
     (case apk of
        Inl e \<Rightarrow> Inl OpenFailure
      | Inr files \<Rightarrow>
         let fileMap = fileMapOf files in
         (case firstDecodable fileMap mipmapPatterns of
            Some r \<Rightarrow> Inr r
          | None \<Rightarrow>
         (case (if pkg \<noteq> [] then decodeToolPath fileMap adb else None) of
            Some r \<Rightarrow> Inr r
          | None \<Rightarrow>
         (case decodeToolPath fileMap (getIconPathFromAAPT2 aapt) of
            Some r \<Rightarrow> Inr r
          | None \<Rightarrow>
         (case firstDecodable fileMap drawablePatterns of
            Some r \<Rightarrow> Inr r
          | None \<Rightarrow>
         (case (if \<not> Contains apkPath ''split_config.''
                then largestMipmapImage fileMap names else None) of
            Some r \<Rightarrow> Inr r
          | None \<Rightarrow> Inl NotFound))))))"

text \<open>An archive with two drawable launcher icons and no mipmap entry.\<close>

definition drawableOnlyApk :: "(string \<times> nat ZipFile) list" where
  "drawableOnlyApk =
     [(''classes.dex'', \<lparr>decoded = None, UncompressedSize64 = 4096\<rparr>),
      (''res/drawable-hdpi/ic_launcher.png'', \<lparr>decoded = Some 5, UncompressedSize64 = 10\<rparr>),
      (''res/drawable-mdpi/ic_launcher.png'', \<lparr>decoded = Some 6, UncompressedSize64 = 8\<rparr>)]"

subsection \<open>ScaleImageAspectFit\<close>

text \<open>
  The scaler computes with \<^verbatim>\<open>float64\<close>.  The type of these numbers and the five
  operations the function applies to them are parameters: the conversion from
  \<^verbatim>\<open>int\<close>, division, multiplication, comparison, and the conversion \<^verbatim>\<open>int(x)\<close>.
\<close>

record 'f FloatOps =
  ofInt :: "int \<Rightarrow> 'f"
  fdiv :: "'f \<Rightarrow> 'f \<Rightarrow> 'f"
  fmul :: "'f \<Rightarrow> 'f \<Rightarrow> 'f"
  fless :: "'f \<Rightarrow> 'f \<Rightarrow> bool"
  toInt :: "'f \<Rightarrow> int"

text \<open>
  An image is represented by the width and height of its bounds; the pixels are the
  business of the resampling filter.  \<open>ScaleImage\<close> gives the source back for a target
  that is not positive and an image of the target size otherwise.
\<close>

definition ScaleImage :: "int \<times> int \<Rightarrow> int \<Rightarrow> int \<Rightarrow> int \<times> int" where
  "ScaleImage src targetW targetH =
     (if targetW \<le> 0 \<or> targetH \<le> 0 then src else (targetW, targetH))"

definition ScaleImageAspectFit :: "'f FloatOps \<Rightarrow> int \<times> int \<Rightarrow> int \<Rightarrow> int \<Rightarrow> int \<times> int" where
  "ScaleImageAspectFit ops src maxW maxH =
     (if maxW \<le> 0 \<or> maxH \<le> 0 then src
      else
        let srcW = fst src;
            srcH = snd src;
            scaleW = fdiv ops (ofInt ops maxW) (ofInt ops srcW);
            scaleH = fdiv ops (ofInt ops maxH) (ofInt ops srcH);
            scale = (if fless ops scaleH scaleW then scaleH else scaleW);
            targetW = toInt ops (fmul ops (ofInt ops srcW) scale);
            targetH = toInt ops (fmul ops (ofInt ops srcH) scale);
            targetW = (if targetW \<le> 0 then 1 else targetW);
            targetH = (if targetH \<le> 0 then 1 else targetH)
        in ScaleImage src targetW targetH)"

text \<open>
  \<^verbatim>\<open>int(x)\<close> truncates towards zero.  A finite \<^verbatim>\<open>float64\<close> is represented by the rational
  number it denotes.
\<close>

definition intOfFloat :: "rat \<Rightarrow> int" where
  "intOfFloat x = (if x < 0 then \<lceil>x\<rceil> else \<lfloor>x\<rfloor>)"

text \<open>
  The operations of \<^verbatim>\<open>float64\<close>: each gives the exact result rounded to the nearest number
  with a significand of 53 bits, a tie going to the even significand.  \<open>bitLength n\<close> is
  the number of binary digits of \<open>n\<close>, \<open>exponentOf x\<close> the exponent \<open>e\<close> with
  \<open>2\<^sup>e \<le> x < 2\<^sup>e\<^sup>+\<^sup>1\<close> of a positive \<open>x\<close>, and \<open>round64 x\<close> the multiple of \<open>2\<^sup>e\<^sup>-\<^sup>5\<^sup>2\<close>
  nearest to \<open>x\<close>.  The exponent is not bounded: the model is exact where no operation
  overflows or underflows, as for quotients and products of machine integers, and it
  has no infinity, so it says nothing of a division by zero.
\<close>

fun bitLength :: "nat \<Rightarrow> nat" where
  "bitLength n = (if n = 0 then 0 else Suc (bitLength (n div 2)))"

declare bitLength.simps [simp del]

definition pow2 :: "int \<Rightarrow> rat" where
  "pow2 e = (if 0 \<le> e then 2 ^ nat e else 1 / 2 ^ nat (- e))"

definition exponentOf :: "rat \<Rightarrow> int" where
  "exponentOf x =
     (if 1 \<le> x then int (bitLength (nat \<lfloor>x\<rfloor>)) - 1
      else - int (bitLength (nat (\<lceil>1 / x\<rceil> - 1))))"

definition roundHalfEven :: "rat \<Rightarrow> int" where
  "roundHalfEven q =
     (let f = \<lfloor>q\<rfloor>; r = q - of_int f in
      if r < 1 / 2 then f else if 1 / 2 < r then f + 1 else if even f then f else f + 1)"

definition round64 :: "rat \<Rightarrow> rat" where
  "round64 x =
     (if x = 0 then 0
      else let ulp = pow2 (exponentOf \<bar>x\<bar> - 52)
           in sgn x * of_int (roundHalfEven (\<bar>x\<bar> / ulp)) * ulp)"

definition unitRoundoff :: rat where
  "unitRoundoff = 1 / 2 ^ 53"

definition float64Ops :: "rat FloatOps" where
  "float64Ops =
     \<lparr>ofInt = (\<lambda>i. round64 (of_int i)),
      fdiv = (\<lambda>a b. round64 (a / b)),
      fmul = (\<lambda>a b. round64 (a * b)),
      fless = (<),
      toInt = intOfFloat\<rparr>"

subsection \<open>The resource-path hint cache\<close>

text \<open>
  The files of the hint cache: a path has a file or not; a file has a modification time
  (in nanoseconds), a content, and can be read or not.  \<^verbatim>\<open>time.Since\<close> is the difference
  of the clock and the given time as a \<^verbatim>\<open>Duration\<close>, which saturates at the 64-bit
  bounds.
\<close>

record FileInfo =
  ModTime :: int
  content :: string
  readable :: bool

type_synonym FileSystem = "string \<rightharpoonup> FileInfo"

definition Since :: "int \<Rightarrow> int \<Rightarrow> int" where
  "Since now t = max (- (2 ^ 63)) (min (2 ^ 63 - 1) (now - t))"

definition day :: int where
  "day = 24 * 3600 * 1000000000"

definition iconPathCacheTTL :: int where
  "iconPathCacheTTL = 7 * 24 * 3600 * 1000000000"

text \<open>
  \<^verbatim>\<open>filepath.Join(home, ".config", "tooie-shelf", "icon-paths", pkg+".txt")\<close>, for a home
  directory and a package name that \<^verbatim>\<open>Join\<close> has nothing to clean in.
\<close>

definition getIconPathCachePath :: "string \<Rightarrow> string \<Rightarrow> string" where
  "getIconPathCachePath home pkg = home @ ''/.config/tooie-shelf/icon-paths/'' @ pkg @ ''.txt''"

definition getCachedIconPathWithTTL :: "FileSystem \<Rightarrow> int \<Rightarrow> string \<Rightarrow> string \<Rightarrow> string" where
  "getCachedIconPathWithTTL fs now home pkg =
     (let cachePath = getIconPathCachePath home pkg in
      case fs cachePath of
        None \<Rightarrow> []
      | Some info \<Rightarrow>
         if Since now (ModTime info) > iconPathCacheTTL then []
         else if \<not> readable info then []
         else TrimSpace (content info))"

text \<open>
  \<open>saveIconPathCache ok fs now home pkg iconPath\<close>: \<open>ok\<close> tells whether \<^verbatim>\<open>os.WriteFile\<close>
  succeeds; when it does, the file holds \<open>iconPath\<close> and is stamped with the clock.
\<close>

definition saveIconPathCache ::
  "bool \<Rightarrow> FileSystem \<Rightarrow> int \<Rightarrow> string \<Rightarrow> string \<Rightarrow> string \<Rightarrow> error option \<times> FileSystem" where
  "saveIconPathCache ok fs now home pkg iconPath =
     (let cachePath = getIconPathCachePath home pkg in
      if ok then (None, fs(cachePath \<mapsto> \<lparr>ModTime = now, content = iconPath, readable = True\<rparr>))
      else (Some WriteFailure, fs))"

text \<open>
  The files after a hint naming the \<^verbatim>\<open>mdpi\<close> drawable was saved for package \<^verbatim>\<open>com.x\<close> at
  time 1000.
\<close>

definition hintFiles :: FileSystem where
  "hintFiles = snd (saveIconPathCache True Map.empty 1000 ''/home/u'' ''com.x''
                      ''res/drawable-mdpi/ic_launcher.png'')"

subsection \<open>parseIconFromPMDump\<close>

text \<open>
  \<open>extractResolution\<close> returns the value of the first density name it meets, in the
  order of Go's visit of \<^verbatim>\<open>densityMap\<close>, that follows a hyphen in the path.  The order of
  the visit is a parameter; \<open>densityMap\<close> is the table in the order of the source.
\<close>

definition densityMap :: "(string \<times> int) list" where
  "densityMap = [(''ldpi'', 120), (''mdpi'', 160), (''hdpi'', 240), (''xhdpi'', 320),
     (''xxhdpi'', 480), (''xxxhdpi'', 640), (''anydpi'', 0)]"

fun extractResolution :: "(string \<times> int) list \<Rightarrow> string \<Rightarrow> int" where
  "extractResolution [] path = 0"
| "extractResolution ((name, dpi) # visit) path =
     (if Contains path (''-'' @ name) then dpi else extractResolution visit path)"

text \<open>
  \<^verbatim>\<open>strings.Split(line, sep)[1]\<close> for a line that contains \<open>sep\<close>: what stands between
  the first \<open>sep\<close> and the next one, or the end.
\<close>

definition secondField :: "string \<Rightarrow> string \<Rightarrow> string" where
  "secondField line sep =
     (case Index line sep of
        None \<Rightarrow> []
      | Some i \<Rightarrow>
         let rest = drop (i + length sep) line in
         (case Index rest sep of None \<Rightarrow> rest | Some j \<Rightarrow> take j rest))"

text \<open>The body of the loop, on the state \<open>(bestIcon, highestRes)\<close>.\<close>

definition pmDumpStep :: "(string \<times> int) list \<Rightarrow> string \<times> int \<Rightarrow> string \<Rightarrow> string \<times> int" where
  "pmDumpStep visit st l =
     (case st of (bestIcon, highestRes) \<Rightarrow>
        let line = TrimSpace l in
        if Contains line ''icon='' then
          let iconPart = TrimSpace (secondField line ''icon='');
              iconPart = (case Index iconPart '' '' of
                            None \<Rightarrow> iconPart | Some idx \<Rightarrow> take idx iconPart)
          in if HasSuffix iconPart ''.png'' then
               (let res = extractResolution visit iconPart in
                if res > highestRes then (iconPart, res) else (bestIcon, highestRes))
             else if HasSuffix iconPart ''.xml'' \<and> bestIcon = [] then
               (TrimSuffix iconPart ''.xml'' @ ''.png'', highestRes)
             else (bestIcon, highestRes)
        else (bestIcon, highestRes))"

definition parseIconFromPMDump :: "(string \<times> int) list \<Rightarrow> string \<Rightarrow> string" where
  "parseIconFromPMDump visit output =
     fst (foldl (pmDumpStep visit) ([], 0) (Split output CHR ''\<newline>''))"

text \<open>A string is trimmed when it is not empty and neither starts nor ends with a space.\<close>

definition trimmed :: "string \<Rightarrow> bool" where
  "trimmed s \<longleftrightarrow> s \<noteq> [] \<and> \<not> isSpace (hd s) \<and> \<not> isSpace (last s)"

subsection \<open>getIconPathViaADB\<close>

text \<open>
  \<open>getIconPathViaADB ok visit fs now home pkg rish\<close>: \<open>rish\<close> is what running
  \<^verbatim>\<open>pm dump\<close> through \<^verbatim>\<open>rish\<close> gives when the cache has no valid hint: an error when
  \<^verbatim>\<open>rish\<close> is missing or fails, else its output.  The result comes with the files as the
  call leaves them.
\<close>

definition getIconPathViaADB ::
  "bool \<Rightarrow> (string \<times> int) list \<Rightarrow> FileSystem \<Rightarrow> int \<Rightarrow> string \<Rightarrow> string \<Rightarrow> error + string
     \<Rightarrow> (error + string) \<times> FileSystem" where
  "getIconPathViaADB ok visit fs now home pkg rish =
     (let cached = getCachedIconPathWithTTL fs now home pkg in
      if cached \<noteq> [] then (Inr cached, fs)
      else
        (case rish of
           Inl e \<Rightarrow> (Inl ExternalToolFailure, fs)
         | Inr output \<Rightarrow>
            let iconPath = parseIconFromPMDump visit output in
            if iconPath = [] then (Inl NotFound, fs)
            else (Inr iconPath, snd (saveIconPathCache ok fs now home pkg iconPath))))"

text \<open>A dump with an icon line, as \<^verbatim>\<open>pm dump\<close> prints it among other lines.\<close>

definition iconDump :: string where
  "iconDump = unlines
     [''  versionName=1.0'',
      ''    icon=res/mipmap-xxhdpi/ic_launcher.png  flags=0x0'',
      ''  dataDir=/data/user/0/com.x'']"

section \<open>internal/app: the model\<close>

text \<open>\<^verbatim>\<open>sys.CellDim\<close>: pixel width and height of one terminal cell.\<close>

record CellDim =
  CellW :: int
  CellH :: int

text \<open>\<^verbatim>\<open>graphics.SixelResult\<close>: the encoded bitmap and its pixel dimensions.\<close>

record SixelResult =
  Sixel :: string
  Width :: int
  Height :: int

text \<open>
  \<^verbatim>\<open>app.Model\<close>. An icon slot is \<open>None\<close> for Go's \<^verbatim>\<open>nil\<close> image; the type of decoded
  images is a parameter.  \<^verbatim>\<open>SixelCache\<close> is a Go map from key strings to results.
\<close>

record 'img Model =
  Config :: Config
  DisplayApps :: "AppConfig list"
  TermWidth :: int
  TermHeight :: int
  CellPx :: CellDim
  Icons :: "'img option list"
  SixelCache :: "string \<rightharpoonup> SixelResult"
  ErrorFlash :: "bool list"
  Selected :: int
  Ready :: bool
  NeedsFullRedraw :: bool
  SixelsDrawn :: bool

definition GridCellSize :: "'img Model \<Rightarrow> int \<times> int" where
  "GridCellSize m =
     (if Columns (Grid (Config m)) \<le> 0 \<or> Rows (Grid (Config m)) \<le> 0 then (0, 0)
      else (go_quot (TermWidth m) (Columns (Grid (Config m))),
            go_quot (TermHeight m - 1) (Rows (Grid (Config m)))))"

definition HitTest :: "'img Model \<Rightarrow> int \<Rightarrow> int \<Rightarrow> int" where
  "HitTest m x y =
     (case GridCellSize m of (cellW, cellH) \<Rightarrow>
        if cellW \<le> 0 \<or> cellH \<le> 0 then - 1
        else let col = go_quot x cellW; row = go_quot y cellH in
          if col < 0 \<or> col \<ge> Columns (Grid (Config m)) then - 1
          else if row < 0 \<or> row \<ge> Rows (Grid (Config m)) then - 1
          else let index = row * Columns (Grid (Config m)) + col in
            if index \<ge> int (length (DisplayApps m)) then - 1 else index)"


subsection \<open>NewModel and ClearCache\<close>

definition NewModel :: "Config \<Rightarrow> 'img Model" where
  "NewModel cfg =
     (let displayApps = GetDisplayApps cfg;
          numApps = length displayApps
      in \<lparr>Config = cfg,
          DisplayApps = displayApps,
          TermWidth = 0,
          TermHeight = 0,
          CellPx = \<lparr>CellW = 0, CellH = 0\<rparr>,
          Icons = replicate numApps None,
          SixelCache = Map.empty,
          ErrorFlash = replicate numApps False,
          Selected = - 1,
          Ready = False,
          NeedsFullRedraw = True,
          SixelsDrawn = False\<rparr>)"

definition ClearCache :: "'img Model \<Rightarrow> 'img Model" where
  "ClearCache m = m\<lparr>SixelCache := Map.empty\<rparr>"

subsection \<open>The render cache\<close>

text \<open>
  \<^verbatim>\<open>fmt.Sprintf("%d", i)\<close>: the decimal digits, after a minus sign for a negative number.
\<close>

fun digits :: "nat \<Rightarrow> string" where
  "digits n = (if n < 10 then [char_of (48 + n)]
               else digits (n div 10) @ [char_of (48 + n mod 10)])"

declare digits.simps [simp del]

definition itoa :: "int \<Rightarrow> string" where
  "itoa i = (if i < 0 then CHR ''-'' # digits (nat (- i)) else digits (nat i))"

text \<open>
  The key \<^verbatim>\<open>fmt.Sprintf("%d_%d_%d_%.2f", index, widthCells, heightCells, scale)\<close>.  The
  scale is a \<^verbatim>\<open>float64\<close>; its type and its formatting with two decimals, \<open>fmt2\<close>, are
  parameters.
\<close>

definition sixelKey :: "('s \<Rightarrow> string) \<Rightarrow> int \<Rightarrow> int \<Rightarrow> int \<Rightarrow> 's \<Rightarrow> string" where
  "sixelKey fmt2 index widthCells heightCells scale =
     itoa index @ ''_'' @ itoa widthCells @ ''_'' @ itoa heightCells @ ''_'' @ fmt2 scale"

definition emptySixelResult :: SixelResult where
  "emptySixelResult = \<lparr>Sixel = [], Width = 0, Height = 0\<rparr>"

text \<open>
  \<^verbatim>\<open>graphics.RenderSixelWithDimensions\<close>.  The parameter \<open>encode\<close> stands for the scaling of
  the image into the target box and the sixel encoder: it gives the encoded string with
  the pixel size of the scaled image, or \<open>None\<close> when the encoder fails.  The second
  component of the result counts the calls of the encoder.
\<close>

definition RenderSixelWithDimensions ::
  "('img \<Rightarrow> int \<Rightarrow> int \<Rightarrow> SixelResult option) \<Rightarrow> 'img \<Rightarrow> int \<Rightarrow> int \<Rightarrow> CellDim
     \<Rightarrow> SixelResult \<times> nat" where
  "RenderSixelWithDimensions encode src widthCells heightCells cellPx =
     (let targetW = widthCells * CellW cellPx;
          targetH = heightCells * CellH cellPx
      in if targetW \<le> 0 \<or> targetH \<le> 0 then (emptySixelResult, 0)
         else (case encode src targetW targetH of
                 None \<Rightarrow> (emptySixelResult, 1)
               | Some r \<Rightarrow> (r, 1)))"

text \<open>
  \<open>getSixelContentWithDimensions\<close> gives the result, the model with the cache as the
  call leaves it, and the number of calls of the encoder it made.  On a miss the
  expression \<^verbatim>\<open>m.Icons[index]\<close> is evaluated, which panics for a negative index.
\<close>

definition getSixelContentWithDimensions ::
  "('s \<Rightarrow> string) \<Rightarrow> ('img \<Rightarrow> int \<Rightarrow> int \<Rightarrow> SixelResult option) \<Rightarrow> 'img Model
     \<Rightarrow> int \<Rightarrow> int \<Rightarrow> int \<Rightarrow> 's \<Rightarrow> error + (SixelResult \<times> 'img Model \<times> nat)" where
  "getSixelContentWithDimensions fmt2 encode m index widthCells heightCells scale =
     (let key = sixelKey fmt2 index widthCells heightCells scale in
      case SixelCache m key of
        Some cached \<Rightarrow> Inr (cached, m, 0)
      | None \<Rightarrow>
         if index < 0 then Inl IndexOutOfRange
         else
           (case (if index < int (length (Icons m)) then Icons m ! nat index else None) of
              Some img \<Rightarrow>
                (case RenderSixelWithDimensions encode img widthCells heightCells (CellPx m) of
                   (result, calls) \<Rightarrow>
                     Inr (result, m\<lparr>SixelCache := (SixelCache m)(key \<mapsto> result)\<rparr>, calls))
            | None \<Rightarrow>
                Inr (emptySixelResult,
                     m\<lparr>SixelCache := (SixelCache m)(key \<mapsto> emptySixelResult)\<rparr>, 0)))"

subsection \<open>Update\<close>

datatype MouseAction = MouseActionPress | MouseActionRelease | MouseActionMotion

datatype 'img Msg =
    KeyMsg string
  | WindowSizeMsg int int
  | terminalGeometryMsg CellDim
  | iconsLoadedMsg "'img option list"
  | MouseMsg MouseAction int int
  | OtherMsg

datatype Cmd = NoCmd | Quit | queryTerminal | ClearScreen

text \<open>
  \<open>Update\<close> gives the next model and the command.  On a mouse release over an app the
  source also writes the highlighted border to the terminal and starts the app; neither
  touches the model.
\<close>

definition Update :: "'img Model \<Rightarrow> 'img Msg \<Rightarrow> 'img Model \<times> Cmd" where
  "Update m msg =
     (case msg of
        KeyMsg k \<Rightarrow>
          if k = ''q'' \<or> k = ''ctrl+c'' \<or> k = ''esc'' then (m, Quit) else (m, NoCmd)
      | WindowSizeMsg width height \<Rightarrow>
          if TermWidth m = 0 \<and> TermHeight m = 0
          then (m\<lparr>TermWidth := width, TermHeight := height\<rparr>, queryTerminal)
          else (m, NoCmd)
      | terminalGeometryMsg cellDim \<Rightarrow>
          if CellW (CellPx m) = CellW cellDim \<and> CellH (CellPx m) = CellH cellDim \<and> Ready m
          then (m, NoCmd)
          else ((ClearCache (m\<lparr>CellPx := cellDim, Ready := True\<rparr>))\<lparr>SixelsDrawn := False\<rparr>,
                ClearScreen)
      | iconsLoadedMsg icons \<Rightarrow> (m\<lparr>Icons := icons\<rparr>, NoCmd)
      | MouseMsg action x y \<Rightarrow>
          if action \<noteq> MouseActionRelease then (m, NoCmd)
          else
            let index = HitTest m x y in
            if index \<ge> 0 \<and> index < int (length (DisplayApps m))
               \<and> CloseOnLaunch (Behavior (Config m))
            then (m, Quit)
            else (m, NoCmd)
      | OtherMsg \<Rightarrow> (m, NoCmd))"

text \<open>
  The states the program can be in.  \<open>View\<close> has a value receiver: it works on a copy of
  the model, so of all it does only the entries that \<open>getSixelContentWithDimensions\<close>
  puts into the shared cache map reach the model the program keeps.  A step of the
  program is therefore an \<open>Update\<close> or a cache lookup; the lookups of \<open>View\<close> are among
  them.
\<close>

inductive reachable ::
  "('s \<Rightarrow> string) \<Rightarrow> ('img \<Rightarrow> int \<Rightarrow> int \<Rightarrow> SixelResult option) \<Rightarrow> Config \<Rightarrow> 'img Model \<Rightarrow> bool"
  for fmt2 encode cfg where
    start: "reachable fmt2 encode cfg (NewModel cfg)"
  | update: "reachable fmt2 encode cfg m \<Longrightarrow> reachable fmt2 encode cfg (fst (Update m msg))"
  | lookup: "reachable fmt2 encode cfg m \<Longrightarrow>
             getSixelContentWithDimensions fmt2 encode m index widthCells heightCells scale
               = Inr (result, m', calls) \<Longrightarrow>
             reachable fmt2 encode cfg m'"

text \<open>
  An entry of the cache agrees with the geometry \<open>cellPx\<close> when it is what a miss stores
  under that geometry for the dimensions of its key: the rendering of some image, or the
  empty result of a slot without image.
\<close>

definition entryUnder ::
  "('s \<Rightarrow> string) \<Rightarrow> ('img \<Rightarrow> int \<Rightarrow> int \<Rightarrow> SixelResult option) \<Rightarrow> CellDim
     \<Rightarrow> string \<Rightarrow> SixelResult \<Rightarrow> bool" where
  "entryUnder fmt2 encode cellPx key r =
     (\<exists>index widthCells heightCells scale.
        key = sixelKey fmt2 index widthCells heightCells scale
        \<and> (r = emptySixelResult
           \<or> (\<exists>img. r = fst (RenderSixelWithDimensions encode img widthCells heightCells cellPx))))"

subsection \<open>A concrete model\<close>

text \<open>One row of five cells on a 50 by 11 terminal, three apps configured.\<close>

definition example_app :: AppConfig where
  "example_app = \<lparr>Name = ''Files'', Icon = [], Package = ''com.files'',
     Activity = ''.Main'', Command = []\<rparr>"

definition example_model :: "nat Model" where
  "example_model =
     \<lparr>Config = \<lparr>Display = [], Grid = \<lparr>Rows = 1, Columns = 5\<rparr>,
                 Style = \<lparr>Border = True, Padding = 1\<rparr>,
                 Behavior = \<lparr>CloseOnLaunch = False\<rparr>,
                 Apps = [example_app, example_app, example_app]\<rparr>,
      DisplayApps = [example_app, example_app, example_app],
      TermWidth = 50, TermHeight = 11, CellPx = \<lparr>CellW = 10, CellH = 20\<rparr>,
      Icons = [Some 7, Some 8, None], SixelCache = Map.empty,
      ErrorFlash = [False, False, False],
      Selected = - 1, Ready = True, NeedsFullRedraw = True, SixelsDrawn = False\<rparr>"

text \<open>
  A formatting of scales given in hundredths, an encoder that records the target box, the
  model after the geometry and the icons have arrived, and that model after one lookup.
\<close>

definition exampleFmt2 :: "nat \<Rightarrow> string" where
  "exampleFmt2 s = digits (s div 100) @ ''.'' @ digits (s mod 100 div 10) @ digits (s mod 10)"

definition exampleEncode :: "nat \<Rightarrow> int \<Rightarrow> int \<Rightarrow> SixelResult option" where
  "exampleEncode img targetW targetH =
     Some \<lparr>Sixel = ''sixel'' @ digits img, Width = targetW, Height = targetH\<rparr>"

definition readyModel :: "nat Model" where
  "readyModel =
     fst (Update (fst (Update (NewModel (Config example_model))
                         (terminalGeometryMsg \<lparr>CellW = 10, CellH = 20\<rparr>)))
            (iconsLoadedMsg [Some 7, Some 8, None]))"

definition drawnModel :: "nat Model" where
  "drawnModel = readyModel\<lparr>SixelCache :=
     [sixelKey exampleFmt2 0 6 6 80 \<mapsto> \<lparr>Sixel = ''sixel7'', Width = 60, Height = 120\<rparr>]\<rparr>"

text \<open>The invariant of the cache: every entry agrees with the geometry of the model.\<close>

definition cacheUnder ::
  "('s \<Rightarrow> string) \<Rightarrow> ('img \<Rightarrow> int \<Rightarrow> int \<Rightarrow> SixelResult option) \<Rightarrow> 'img Model \<Rightarrow> bool" where
  "cacheUnder fmt2 encode m \<longleftrightarrow>
     (\<forall>k r. SixelCache m k = Some r \<longrightarrow> entryUnder fmt2 encode (CellPx m) k r)"

section \<open>Properties of the Go primitives\<close>

lemma go_quot_nonneg: "0 \<le> a \<Longrightarrow> 0 < b \<Longrightarrow> go_quot a b = a div b"
  by (cases "a = 0") (auto simp: go_quot_def)

lemma go_quot_neg: "a < 0 \<Longrightarrow> 0 < b \<Longrightarrow> go_quot a b = - ((- a) div b)"
  by (auto simp: go_quot_def)

lemma Index_Some_take:
  "Index s sub = Some i \<Longrightarrow> i + length sub \<le> length s \<and> take (length sub) (drop i s) = sub"
proof (induction s arbitrary: i)
  case Nil
  then show ?case by (auto split: if_splits)
next
  case (Cons c s)
  show ?case
  proof (cases "HasPrefix (c # s) sub")
    case True
    with Cons.prems have "i = 0" by simp
    moreover from True have "take (length sub) (c # s) = sub" by (simp add: HasPrefix_def)
    moreover have "length sub \<le> length (c # s)"
    proof -
      have "length (take (length sub) (c # s)) = length sub"
        using True by (simp only: HasPrefix_def)
      then show ?thesis by simp
    qed
    ultimately show ?thesis by simp
  next
    case False
    with Cons.prems obtain j where j: "Index s sub = Some j" "i = Suc j" by auto
    from Cons.IH[OF j(1)] j(2) show ?thesis by simp
  qed
qed


lemma Contains_set: "Contains s sub \<Longrightarrow> set sub \<subseteq> set s"
proof -
  assume "Contains s sub"
  then obtain i where "Index s sub = Some i" by (auto simp: Contains_def)
  from Index_Some_take[OF this] have "take (length sub) (drop i s) = sub" by simp
  then have "set sub = set (take (length sub) (drop i s))" by simp
  also have "\<dots> \<subseteq> set s" by (meson set_take_subset set_drop_subset subset_trans)
  finally show ?thesis .
qed





section \<open>Properties of the identity resolver\<close>




lemma runeSize_gt2: "2 < runeSize s \<Longrightarrow> s \<noteq> [] \<and> 224 \<le> (of_char (hd s) :: nat)"
  by (auto simp: runeSize_def Let_def split: list.splits if_splits)

lemma explodeFrom_long_part:
  "p \<in> set (explodeFrom n s) \<Longrightarrow> 2 < length p \<Longrightarrow> p \<noteq> [] \<and> 224 \<le> (of_char (hd p) :: nat)"
proof (induction n arbitrary: s)
  case 0
  then show ?case by simp
next
  case (Suc n)
  show ?case
  proof (cases "s = []")
    case True
    with Suc.prems show ?thesis by simp
  next
    case False
    with Suc.prems consider "p = take (runeSize s) s" | "p \<in> set (explodeFrom n (drop (runeSize s) s))"
      by auto
    then show ?thesis
    proof cases
      case 1
      with Suc.prems(2) have "2 < runeSize s" by simp
      from runeSize_gt2[OF this] 1 \<open>2 < runeSize s\<close> show ?thesis
        by (cases s) auto
    next
      case 2
      from Suc.IH[OF this Suc.prems(2)] show ?thesis .
    qed
  qed
qed

lemma long_part_not_in_ASCII:
  assumes "p \<in> set (explode s)" and "2 < length p" and "isASCII q"
  shows "\<not> Contains q p"
proof
  assume "Contains q p"
  then have sub: "set p \<subseteq> set q" by (rule Contains_set)
  from explodeFrom_long_part[OF assms(1)[unfolded explode_def] assms(2)]
  have "p \<noteq> []" and big: "224 \<le> (of_char (hd p) :: nat)" by simp_all
  then have "hd p \<in> set q" using sub by auto
  then have "(of_char (hd p) :: nat) < 128" using assms(3) by (simp add: isASCII_def list_all_iff)
  with big show False by simp
qed

lemma foldl_bonus_count:
  "foldl (\<lambda>score part. if P part then score + 5 else score) sc parts
     = sc + 5 * int (length (filter P parts))"
  by (induction parts arbitrary: sc) auto

lemma calculateMatchScore_unfold:
  "calculateMatchScore pkg search =
     (if RemoveAll pkg CHR ''.'' = search then 100
      else (if Contains (RemoveAll pkg CHR ''.'') search then 50 else 0)
         + (if Contains search (RemoveAll pkg CHR ''.'') then 30 else 0)
         + 5 * int (length (filter (\<lambda>part. 2 < length part \<and> Contains (RemoveAll pkg CHR ''.'') part)
                              (explode search)))
         - int (length pkg) div 10)"
  by (simp add: calculateMatchScore_def Let_def foldl_bonus_count go_quot_nonneg)

lemma isASCII_RemoveAll: "isASCII s \<Longrightarrow> isASCII (RemoveAll s c)"
  by (simp add: isASCII_def RemoveAll_def list_all_iff)






text \<open>
  Claim C8.  The loop commented \<^verbatim>\<open>Word boundaries match\<close> splits the search name with
  \<^verbatim>\<open>strings.Split(search, "")\<close>, that is into single characters, and adds 5 only for a
  part longer than 2 bytes.  For the search name \<^verbatim>\<open>chrome\<close> and the candidate
  \<^verbatim>\<open>com.android.chrome\<close> every one of the six characters occurs in the dot-stripped
  candidate, and yet the score is 49: the 50 of the containment less the length penalty
  of 1, with no contribution of the characters.
\<close>

theorem calculateMatchScore_no_character_bonus:
  "explode ''chrome'' = [''c'', ''h'', ''r'', ''o'', ''m'', ''e'']
   \<and> list_all (\<lambda>part. Contains (RemoveAll ''com.android.chrome'' CHR ''.'') part)
         (explode ''chrome'')
   \<and> calculateMatchScore ''com.android.chrome'' ''chrome'' = 49
   \<and> (if Contains (RemoveAll ''com.android.chrome'' CHR ''.'') ''chrome'' then 50 else 0)
       + (if Contains ''chrome'' (RemoveAll ''com.android.chrome'' CHR ''.'') then 30 else 0)
       - int (length ''com.android.chrome'') div 10 = (49 :: int)"
proof -
  have "explode ''chrome'' = [''c'', ''h'', ''r'', ''o'', ''m'', ''e'']" by code_simp
  moreover have "list_all (\<lambda>part. Contains (RemoveAll ''com.android.chrome'' CHR ''.'') part)
         (explode ''chrome'')" by code_simp
  moreover have "calculateMatchScore ''com.android.chrome'' ''chrome'' = 49" by code_simp
  moreover have "(if Contains (RemoveAll ''com.android.chrome'' CHR ''.'') ''chrome'' then 50 else 0)
       + (if Contains ''chrome'' (RemoveAll ''com.android.chrome'' CHR ''.'') then 30 else 0)
       - int (length ''com.android.chrome'') div 10 = (49 :: int)" by code_simp
  ultimately show ?thesis by blast
qed

text \<open>
  The same holds for every candidate the inventory can list and for every ASCII search
  name: a part longer than 2 bytes is a character of three or four bytes, which an ASCII
  string neither has nor contains, so the score is made of containment and penalty alone.
\<close>

lemma calculateMatchScore_ASCII_candidate:
  assumes "isASCII pkg" and "RemoveAll pkg CHR ''.'' \<noteq> search"
  shows "calculateMatchScore pkg search =
      (if Contains (RemoveAll pkg CHR ''.'') search then 50 else 0)
    + (if Contains search (RemoveAll pkg CHR ''.'') then 30 else 0)
    - int (length pkg) div 10"
proof -
  have "filter (\<lambda>part. 2 < length part \<and> Contains (RemoveAll pkg CHR ''.'') part) (explode search) = []"
    using long_part_not_in_ASCII[OF _ _ isASCII_RemoveAll[OF assms(1)]]
    by (auto simp: filter_empty_conv)
  then show ?thesis using assms(2) by (simp add: calculateMatchScore_unfold)
qed

lemma explodeFrom_ASCII_parts:
  "isASCII s \<Longrightarrow> p \<in> set (explodeFrom n s) \<Longrightarrow> length p \<le> 1"
proof (induction n arbitrary: s)
  case 0
  then show ?case by simp
next
  case (Suc n)
  show ?case
  proof (cases s)
    case Nil
    with Suc.prems show ?thesis by simp
  next
    case (Cons c r)
    with Suc.prems(1) have c: "(of_char c :: nat) < 128" and r: "isASCII r"
      by (simp_all add: isASCII_def)
    from c have rs: "runeSize s = 1" using Cons by (simp add: runeSize_def)
    with Suc.prems(2) Cons consider "p = [c]" | "p \<in> set (explodeFrom n r)" by auto
    then show ?thesis using Suc.IH[OF r] by cases auto
  qed
qed

lemma calculateMatchScore_ASCII_search:
  assumes "isASCII search" and "RemoveAll pkg CHR ''.'' \<noteq> search"
  shows "calculateMatchScore pkg search =
      (if Contains (RemoveAll pkg CHR ''.'') search then 50 else 0)
    + (if Contains search (RemoveAll pkg CHR ''.'') then 30 else 0)
    - int (length pkg) div 10"
proof -
  have "filter (\<lambda>part. 2 < length part \<and> Contains (RemoveAll pkg CHR ''.'') part) (explode search) = []"
    using explodeFrom_ASCII_parts[OF assms(1)] by (fastforce simp: filter_empty_conv explode_def)
  then show ?thesis using assms(2) by (simp add: calculateMatchScore_unfold)
qed

text \<open>
  Only a character of three or four bytes makes the loop add anything: U+65E5 in both
  strings adds 5, and fifteen of them against a string of one add 75 to the 30 of the
  reverse containment.
\<close>

lemma calculateMatchScore_multibyte:
  "calculateMatchScore (CHR ''x'' # sunChar) (sunChar @ ''y'') = 5
   \<and> calculateMatchScore sunChar sunName = 105"
proof -
  have "calculateMatchScore (CHR ''x'' # sunChar) (sunChar @ ''y'') = 5" by code_simp
  moreover have "calculateMatchScore sunChar sunName = 105" by code_simp
  ultimately show ?thesis by blast
qed

text \<open>
  Claim C4.  The scan keeps one flag, set by the main-action marker alone, and returns
  the current activity as soon as the next \<^verbatim>\<open>Activity #\<close> line is met with the flag set.
  In a dump whose first component declares only the main action and whose second
  component declares both markers, the first component's activity is returned, not that
  of the first component with both markers.
\<close>

theorem parseMainActivity_main_only_component:
  "parseMainActivity twoActivitiesDump ''com.x'' = ''com.x.Settings''"
  by code_simp

text \<open>
  The end of the input does return the component that is still open: a last component
  with both markers resolves even when the launcher line comes before the main-action
  line and nothing follows.
\<close>

lemma parseMainActivity_last_component:
  "parseMainActivity lastActivityDump ''com.x'' = ''com.x.Home''"
  by code_simp

section \<open>Properties of the icon extraction\<close>

subsection \<open>The archive tool's icon path\<close>

lemma declStep_apply:
  "declStep st d =
     (if snd (snd d) then (if fst d > snd st then (fst (snd d), fst d) else st)
      else if fst st = [] then (fst (snd d), fst d) else st)"
  by (simp add: declStep_def)

lemma HasSuffix_nonempty: "HasSuffix p s \<Longrightarrow> s \<noteq> [] \<Longrightarrow> p \<noteq> []"
  by (auto simp: HasSuffix_def)

lemma iconDecl_path_nonempty: "iconDecl line = Some (r, p, k) \<Longrightarrow> p \<noteq> []"
  by (auto simp: iconDecl_def split: option.splits prod.splits if_splits dest: HasSuffix_nonempty)

lemma iconLineStep_decl:
  "iconLineStep st line = (case iconDecl line of None \<Rightarrow> st | Some d \<Rightarrow> declStep st d)"
  by (cases st) (auto simp: iconLineStep_def iconDecl_def declStep_apply split: option.splits)

lemma foldl_iconLineStep:
  "foldl iconLineStep st lines = foldl declStep st (iconDecls lines)"
proof (induction lines arbitrary: st)
  case Nil
  then show ?case by (simp add: iconDecls_def map_filter_simps)
next
  case (Cons l ls)
  then show ?case
    by (cases "iconDecl l") (simp_all add: iconDecls_def map_filter_simps iconLineStep_decl)
qed

lemma iconDecls_paths: "d \<in> set (iconDecls lines) \<Longrightarrow> fst (snd d) \<noteq> []"
proof -
  assume "d \<in> set (iconDecls lines)"
  then have "\<exists>l. iconDecl l = Some d"
  proof (induction lines)
    case Nil
    then show ?case by (simp add: iconDecls_def map_filter_simps)
  next
    case (Cons l ls)
    then show ?case
      by (cases "iconDecl l") (auto simp: iconDecls_def map_filter_simps)
  qed
  then obtain l where "iconDecl l = Some d" by blast
  then show ?thesis using iconDecl_path_nonempty[of l "fst d" "fst (snd d)" "snd (snd d)"] by simp
qed

lemma declStep_selected_skips_xml:
  "icon \<noteq> [] \<Longrightarrow> \<forall>d\<in>set ds. fst (snd d) \<noteq> [] \<Longrightarrow>
   foldl declStep (icon, res) ds = foldl declStep (icon, res) (filter (\<lambda>d. snd (snd d)) ds)"
proof (induction ds arbitrary: icon res)
  case Nil
  then show ?case by simp
next
  case (Cons d ds)
  show ?case
  proof (cases "snd (snd d)")
    case True
    have "fst (declStep (icon, res) d) \<noteq> []"
      using Cons.prems by (auto simp: declStep_apply)
    then obtain i r where ir: "declStep (icon, res) d = (i, r)" "i \<noteq> []"
      by (cases "declStep (icon, res) d") auto
    with Cons.IH[of i r] Cons.prems True show ?thesis by simp
  next
    case False
    then have "declStep (icon, res) d = (icon, res)"
      using Cons.prems by (simp add: declStep_apply)
    with Cons.IH[of icon res] Cons.prems False show ?thesis by simp
  qed
qed

lemma declStep_png_first_max:
  "\<forall>d\<in>set ps. snd (snd d) \<Longrightarrow> foldl declStep (icon, res) ps = (icon', res') \<Longrightarrow>
     (icon' = icon \<and> res' = res \<and> (\<forall>d\<in>set ps. fst d \<le> res))
   \<or> (\<exists>pre b post. ps = pre @ b # post \<and> icon' = fst (snd b) \<and> res' = fst b \<and> res < fst b
         \<and> (\<forall>d\<in>set pre. fst d < fst b) \<and> (\<forall>d\<in>set post. fst d \<le> fst b))"
proof (induction ps arbitrary: icon res)
  case Nil
  then show ?case by simp
next
  case (Cons d ps)
  have png: "snd (snd d)" and rest: "\<forall>d\<in>set ps. snd (snd d)" using Cons.prems(1) by simp_all
  show ?case
  proof (cases "fst d > res")
    case True
    then have "declStep (icon, res) d = (fst (snd d), fst d)"
      using png by (simp add: declStep_apply)
    then have "foldl declStep (fst (snd d), fst d) ps = (icon', res')"
      using Cons.prems(2) by simp
    from Cons.IH[OF rest this] show ?thesis
    proof
      assume a: "icon' = fst (snd d) \<and> res' = fst d \<and> (\<forall>e\<in>set ps. fst e \<le> fst d)"
      with True show ?thesis
        by (intro disjI2 exI[of _ "[]"] exI[of _ d] exI[of _ ps]) auto
    next
      assume "\<exists>pre b post. ps = pre @ b # post \<and> icon' = fst (snd b) \<and> res' = fst b \<and> fst d < fst b
         \<and> (\<forall>d\<in>set pre. fst d < fst b) \<and> (\<forall>d\<in>set post. fst d \<le> fst b)"
      then obtain pre b post where b: "ps = pre @ b # post" "icon' = fst (snd b)" "res' = fst b"
        "fst d < fst b" "\<forall>d\<in>set pre. fst d < fst b" "\<forall>d\<in>set post. fst d \<le> fst b" by blast
      then show ?thesis using True
        by (intro disjI2 exI[of _ "d # pre"] exI[of _ b] exI[of _ post]) auto
    qed
  next
    case False
    then have "declStep (icon, res) d = (icon, res)"
      using png by (simp add: declStep_apply)
    then have "foldl declStep (icon, res) ps = (icon', res')"
      using Cons.prems(2) by simp
    from Cons.IH[OF rest this] show ?thesis
    proof
      assume "icon' = icon \<and> res' = res \<and> (\<forall>e\<in>set ps. fst e \<le> res)"
      with False show ?thesis by auto
    next
      assume "\<exists>pre b post. ps = pre @ b # post \<and> icon' = fst (snd b) \<and> res' = fst b \<and> res < fst b
         \<and> (\<forall>d\<in>set pre. fst d < fst b) \<and> (\<forall>d\<in>set post. fst d \<le> fst b)"
      then obtain pre b post where b: "ps = pre @ b # post" "icon' = fst (snd b)" "res' = fst b"
        "res < fst b" "\<forall>d\<in>set pre. fst d < fst b" "\<forall>d\<in>set post. fst d \<le> fst b" by blast
      then show ?thesis using False
        by (intro disjI2 exI[of _ "d # pre"] exI[of _ b] exI[of _ post]) auto
    qed
  qed
qed

lemma fallback_first_max:
  assumes pos: "\<forall>d\<in>set ds. 0 < fst d" and ne: "\<forall>d\<in>set ds. fst (snd d) \<noteq> []"
    and "ds \<noteq> []"
  shows "\<exists>pre b post. competingDecls ds = pre @ b # post
           \<and> foldl declStep ([], 0) ds = (fst (snd b), fst b)
           \<and> (\<forall>d\<in>set pre. fst d < fst b) \<and> (\<forall>d\<in>set post. fst d \<le> fst b)"
proof -
  from \<open>ds \<noteq> []\<close> obtain d rest where ds: "ds = d # rest" by (cases ds) auto
  let ?ps = "filter (\<lambda>d. snd (snd d)) rest"
  have first: "declStep ([], 0) d = (fst (snd d), fst d)"
    using pos ds by (simp add: declStep_apply)
  have "fst (snd d) \<noteq> []" using ne ds by simp
  moreover have "\<forall>e\<in>set rest. fst (snd e) \<noteq> []" using ne ds by simp
  ultimately have eq: "foldl declStep ([], 0) ds = foldl declStep (fst (snd d), fst d) ?ps"
    using declStep_selected_skips_xml[of "fst (snd d)" rest "fst d"] first ds by simp
  obtain icon' res' where fin: "foldl declStep (fst (snd d), fst d) ?ps = (icon', res')"
    by (cases "foldl declStep (fst (snd d), fst d) ?ps") auto
  have comp: "competingDecls ds = d # ?ps" by (simp add: competingDecls_def ds)
  have "\<forall>e\<in>set ?ps. snd (snd e)" by simp
  from declStep_png_first_max[OF this fin] show ?thesis
  proof
    assume "icon' = fst (snd d) \<and> res' = fst d \<and> (\<forall>e\<in>set ?ps. fst e \<le> fst d)"
    then show ?thesis using eq fin comp
      by (intro exI[of _ "[]"] exI[of _ d] exI[of _ ?ps]) auto
  next
    assume "\<exists>pre b post. ?ps = pre @ b # post \<and> icon' = fst (snd b) \<and> res' = fst b \<and> fst d < fst b
         \<and> (\<forall>d\<in>set pre. fst d < fst b) \<and> (\<forall>d\<in>set post. fst d \<le> fst b)"
    then obtain pre b post where b: "?ps = pre @ b # post" "icon' = fst (snd b)" "res' = fst b"
        "fst d < fst b" "\<forall>d\<in>set pre. fst d < fst b" "\<forall>d\<in>set post. fst d \<le> fst b" by blast
    have c: "competingDecls ds = (d # pre) @ b # post" using comp b(1) by simp
    have e: "foldl declStep ([], 0) ds = (fst (snd b), fst b)" using eq fin b(2,3) by simp
    have f: "\<forall>e\<in>set (d # pre). fst e < fst b" using b(4,5) by simp
    show ?thesis using c e f b(6) by blast
  qed
qed

lemma applicationLoop_first:
  "\<forall>x\<in>set pre. applicationIcon x = None \<Longrightarrow> applicationIcon l = Some p \<Longrightarrow>
   applicationLoop (pre @ l # post) = Some p"
  by (induction pre) auto

lemma applicationLoop_None:
  "applicationLoop lines = None \<longleftrightarrow> (\<forall>x\<in>set lines. applicationIcon x = None)"
  by (induction lines) (auto split: option.splits)


lemma competingDecls_subset: "set (competingDecls ds) \<subseteq> set ds"
  by (cases ds) (auto simp: competingDecls_def)

text \<open>
  Claim C6, as the code has it.  When a top-level \<^verbatim>\<open>application:\<close> line carries an icon
  assignment ending in \<^verbatim>\<open>.png\<close> or \<^verbatim>\<open>.xml\<close>, the path of the first such line is returned
  (\<^verbatim>\<open>.png\<close> in place of \<^verbatim>\<open>.xml\<close>), whatever the \<^verbatim>\<open>application-icon-\<close> lines say.
  When there is none and the declared densities are positive, the declarations that
  compete are the first one and the \<^verbatim>\<open>.png\<close> declarations after it: the first of them
  with the highest density is returned (a \<^verbatim>\<open>.xml\<close> declaration as its \<^verbatim>\<open>.png\<close> path), and
  without any declaration the lookup fails.
\<close>

theorem getIconPathFromAAPT2_selection:
  fixes out :: string
  defines "lines \<equiv> Split out CHR ''\<newline>''"
  shows "(\<forall>pre l post p. lines = pre @ l # post \<and> (\<forall>x\<in>set pre. applicationIcon x = None)
            \<and> applicationIcon l = Some p
          \<longrightarrow> getIconPathFromAAPT2 (Inr out) = Inr p)
       \<and> ((\<forall>x\<in>set lines. applicationIcon x = None) \<and> (\<forall>d\<in>set (iconDecls lines). 0 < fst d)
          \<longrightarrow> (iconDecls lines = [] \<longrightarrow> getIconPathFromAAPT2 (Inr out) = Inl NotFound)
            \<and> (iconDecls lines \<noteq> [] \<longrightarrow>
                 (\<exists>pre b post. competingDecls (iconDecls lines) = pre @ b # post
                    \<and> getIconPathFromAAPT2 (Inr out) = Inr (fst (snd b))
                    \<and> (\<forall>d\<in>set pre. fst d < fst b) \<and> (\<forall>d\<in>set post. fst d \<le> fst b))))"
proof (intro conjI allI impI)
  fix pre l post p
  assume "lines = pre @ l # post \<and> (\<forall>x\<in>set pre. applicationIcon x = None)
            \<and> applicationIcon l = Some p"
  then have "applicationLoop lines = Some p" using applicationLoop_first by simp
  then show "getIconPathFromAAPT2 (Inr out) = Inr p"
    unfolding lines_def by (simp add: getIconPathFromAAPT2_def)
next
  assume a: "(\<forall>x\<in>set lines. applicationIcon x = None) \<and> (\<forall>d\<in>set (iconDecls lines). 0 < fst d)"
    and e: "iconDecls lines = []"
  from a have "applicationLoop lines = None" by (simp add: applicationLoop_None)
  moreover have "foldl iconLineStep ([], 0) lines = ([], 0)"
    using e by (simp add: foldl_iconLineStep)
  ultimately show "getIconPathFromAAPT2 (Inr out) = Inl NotFound"
    unfolding lines_def by (simp add: getIconPathFromAAPT2_def)
next
  assume a: "(\<forall>x\<in>set lines. applicationIcon x = None) \<and> (\<forall>d\<in>set (iconDecls lines). 0 < fst d)"
    and ne: "iconDecls lines \<noteq> []"
  from a have app: "applicationLoop lines = None" by (simp add: applicationLoop_None)
  from a have pos: "\<forall>d\<in>set (iconDecls lines). 0 < fst d" by simp
  have paths: "\<forall>d\<in>set (iconDecls lines). fst (snd d) \<noteq> []" using iconDecls_paths by blast
  from fallback_first_max[OF pos paths ne] obtain pre b post where
    b: "competingDecls (iconDecls lines) = pre @ b # post"
      "foldl declStep ([], 0) (iconDecls lines) = (fst (snd b), fst b)"
      "\<forall>d\<in>set pre. fst d < fst b" "\<forall>d\<in>set post. fst d \<le> fst b" by blast
  have "b \<in> set (competingDecls (iconDecls lines))" using b(1) by simp
  then have "b \<in> set (iconDecls lines)"
    using competingDecls_subset by blast
  then have "fst (snd b) \<noteq> []" using paths by blast
  then have "getIconPathFromAAPT2 (Inr out) = Inr (fst (snd b))"
    using app b(2) unfolding lines_def
    by (simp add: getIconPathFromAAPT2_def foldl_iconLineStep)
  then show "\<exists>pre b post. competingDecls (iconDecls lines) = pre @ b # post
                    \<and> getIconPathFromAAPT2 (Inr out) = Inr (fst (snd b))
                    \<and> (\<forall>d\<in>set pre. fst d < fst b) \<and> (\<forall>d\<in>set post. fst d \<le> fst b)"
    using b(1,3,4) by blast
qed


theorem getIconPathFromAAPT2_selection_witness:
  "Split aaptTopLevel CHR ''\<newline>''
      = [iconLine ''application-icon-640'' ''res/b.png''] @ topLevelLine ''res/top.xml'' # [[]]
   \<and> applicationIcon (iconLine ''application-icon-640'' ''res/b.png'') = None
   \<and> applicationIcon (topLevelLine ''res/top.xml'') = Some ''res/top.png''
   \<and> getIconPathFromAAPT2 (Inr aaptTopLevel) = Inr ''res/top.png''
   \<and> list_all (\<lambda>x. applicationIcon x = None) (Split aaptRasters CHR ''\<newline>'')
   \<and> iconDecls (Split aaptRasters CHR ''\<newline>'')
       = [(160, ''res/a.png'', True), (640, ''res/b.png'', True), (640, ''res/c.png'', True)]
   \<and> getIconPathFromAAPT2 (Inr aaptRasters) = Inr ''res/b.png''"
proof -
  have sp: "Split aaptTopLevel CHR ''\<newline>''
      = [iconLine ''application-icon-640'' ''res/b.png''] @ topLevelLine ''res/top.xml'' # [[]]"
    by code_simp
  have a1: "applicationIcon (iconLine ''application-icon-640'' ''res/b.png'') = None"
    by code_simp
  have a2: "applicationIcon (topLevelLine ''res/top.xml'') = Some ''res/top.png''"
    by code_simp
  have top: "getIconPathFromAAPT2 (Inr aaptTopLevel) = Inr ''res/top.png''"
  proof -
    from getIconPathFromAAPT2_selection [of aaptTopLevel]
    have "\<forall>pre l post p. Split aaptTopLevel CHR ''\<newline>'' = pre @ l # post
            \<and> (\<forall>x\<in>set pre. applicationIcon x = None) \<and> applicationIcon l = Some p
          \<longrightarrow> getIconPathFromAAPT2 (Inr aaptTopLevel) = Inr p"
      by (rule conjunct1)
    then have "Split aaptTopLevel CHR ''\<newline>''
          = [iconLine ''application-icon-640'' ''res/b.png''] @ topLevelLine ''res/top.xml'' # [[]]
        \<and> (\<forall>x\<in>set [iconLine ''application-icon-640'' ''res/b.png'']. applicationIcon x = None)
        \<and> applicationIcon (topLevelLine ''res/top.xml'') = Some ''res/top.png''
        \<longrightarrow> getIconPathFromAAPT2 (Inr aaptTopLevel) = Inr ''res/top.png''"
      by blast
    then show ?thesis using sp a1 a2 by simp
  qed
  have all_none: "list_all (\<lambda>x. applicationIcon x = None) (Split aaptRasters CHR ''\<newline>'')"
    by code_simp
  then have none: "\<forall>x\<in>set (Split aaptRasters CHR ''\<newline>''). applicationIcon x = None"
    by (simp add: list_all_iff)
  have ds: "iconDecls (Split aaptRasters CHR ''\<newline>'')
       = [(160, ''res/a.png'', True), (640, ''res/b.png'', True), (640, ''res/c.png'', True)]"
    by code_simp
  have comp: "competingDecls [(160, ''res/a.png'', True), (640, ''res/b.png'', True), (640, ''res/c.png'', True)]
      = [(160, ''res/a.png'', True), (640, ''res/b.png'', True), (640 :: int, ''res/c.png'', True)]"
    by (simp add: competingDecls_def)
  from getIconPathFromAAPT2_selection [of aaptRasters] none ds comp
  obtain pre b post where
    b: "[(160, ''res/a.png'', True), (640, ''res/b.png'', True), (640 :: int, ''res/c.png'', True)]
          = pre @ b # post"
       "getIconPathFromAAPT2 (Inr aaptRasters) = Inr (fst (snd b))"
       "\<forall>d\<in>set pre. fst d < fst b" "\<forall>d\<in>set post. fst d \<le> fst b"
    by auto
  from b(1,3,4) have "b = (640, ''res/b.png'', True)"
    by (auto simp: Cons_eq_append_conv append_eq_Cons_conv)
  with b(2) have "getIconPathFromAAPT2 (Inr aaptRasters) = Inr ''res/b.png''" by simp
  with sp a1 a2 top all_none ds show ?thesis by blast
qed

text \<open>
  The claim as stated fails in three ways.  A \<^verbatim>\<open>.png\<close> declaration of density 160
  followed by a \<^verbatim>\<open>.xml\<close> declaration of density 65534 gives the \<^verbatim>\<open>.png\<close> one, not the
  declaration of highest density; of two \<^verbatim>\<open>.xml\<close> declarations the first is taken,
  although the second has the higher density; and a top-level icon assignment whose path
  ends in \<^verbatim>\<open>.webp\<close> is passed over for an \<^verbatim>\<open>application-icon-\<close> declaration.
\<close>

theorem getIconPathFromAAPT2_not_highest_density:
  "iconDecls (Split aaptMixed CHR ''\<newline>'')
     = [(160, ''res/mipmap-mdpi-v4/ic_launcher.png'', True),
        (65534, ''res/mipmap-anydpi-v26/ic_launcher.png'', False)]
   \<and> getIconPathFromAAPT2 (Inr aaptMixed) = Inr ''res/mipmap-mdpi-v4/ic_launcher.png''
   \<and> iconDecls (Split aaptVectors CHR ''\<newline>'')
     = [(160, ''res/a.png'', False), (640, ''res/b.png'', False)]
   \<and> getIconPathFromAAPT2 (Inr aaptVectors) = Inr ''res/a.png''
   \<and> Index (topLevelLine ''res/icon.webp'') (''icon='' @ [quoteChar]) = Some 25
   \<and> getIconPathFromAAPT2 (Inr aaptWebp) = Inr ''res/a.png''"
proof -
  have "iconDecls (Split aaptMixed CHR ''\<newline>'')
     = [(160, ''res/mipmap-mdpi-v4/ic_launcher.png'', True),
        (65534, ''res/mipmap-anydpi-v26/ic_launcher.png'', False)]" by code_simp
  moreover have "getIconPathFromAAPT2 (Inr aaptMixed) = Inr ''res/mipmap-mdpi-v4/ic_launcher.png''"
    by code_simp
  moreover have "iconDecls (Split aaptVectors CHR ''\<newline>'')
     = [(160, ''res/a.png'', False), (640, ''res/b.png'', False)]" by code_simp
  moreover have "getIconPathFromAAPT2 (Inr aaptVectors) = Inr ''res/a.png''" by code_simp
  moreover have "Index (topLevelLine ''res/icon.webp'') (''icon='' @ [quoteChar]) = Some 25"
    by code_simp
  moreover have "getIconPathFromAAPT2 (Inr aaptWebp) = Inr ''res/a.png''" by code_simp
  ultimately show ?thesis by blast
qed

subsection \<open>The order of the strategies\<close>

lemma mipmapPatterns_category: "list_all (\<lambda>p. Contains p ''mipmap'') mipmapPatterns"
  by code_simp

lemma drawablePatterns_category: "list_all (\<lambda>p. \<not> Contains p ''mipmap'') drawablePatterns"
  by code_simp

lemma firstDecodable_None:
  "(\<forall>p\<in>set ps. decodeEntry fm p = None) \<Longrightarrow> firstDecodable fm ps = None"
  by (induction ps) auto

lemma firstDecodable_Some:
  "\<exists>p\<in>set ps. decodeEntry fm p \<noteq> None \<Longrightarrow>
   \<exists>pre p post img. ps = pre @ p # post \<and> firstDecodable fm ps = Some (img, p)
      \<and> decodeEntry fm p = Some img \<and> (\<forall>q\<in>set pre. decodeEntry fm q = None)"
proof (induction ps)
  case Nil
  then show ?case by simp
next
  case (Cons a ps)
  show ?case
  proof (cases "decodeEntry fm a")
    case (Some img)
    then show ?thesis
      by (intro exI[of _ "[]"] exI[of _ a] exI[of _ ps] exI[of _ img]) simp
  next
    case None
    with Cons.prems have "\<exists>p\<in>set ps. decodeEntry fm p \<noteq> None" by auto
    from Cons.IH[OF this] obtain pre p post img where
      r: "ps = pre @ p # post" "firstDecodable fm ps = Some (img, p)"
        "decodeEntry fm p = Some img" "\<forall>q\<in>set pre. decodeEntry fm q = None" by blast
    then show ?thesis using None
      by (intro exI[of _ "a # pre"] exI[of _ p] exI[of _ post] exI[of _ img]) simp
  qed
qed

text \<open>
  Strategies 1 to 3 give nothing, and strategy 4 answers, when the archive has no mipmap
  entry, the path of the introspection query (if the package name is not empty) and the
  path of the archive tool decode to nothing, and a drawable path decodes.
\<close>

lemma extractIconFromAPK_strategy4:
  fixes files :: "(string \<times> 'img ZipFile) list"
  assumes nomip: "\<forall>name\<in>dom (fileMapOf files). \<not> Contains name ''mipmap''"
    and adb: "pkg = [] \<or> decodeToolPath (fileMapOf files) adb = None"
    and aapt: "decodeToolPath (fileMapOf files) (getIconPathFromAAPT2 aapt) = None"
    and dr: "\<exists>p\<in>set drawablePatterns. decodeEntry (fileMapOf files) p \<noteq> None"
  shows "\<exists>pre p post img. drawablePatterns = pre @ p # post
           \<and> extractIconFromAPK apkPath pkg (Inr files) names adb aapt = Inr (img, p)
           \<and> firstDecodable (fileMapOf files) drawablePatterns = Some (img, p)
           \<and> decodeEntry (fileMapOf files) p = Some img
           \<and> (\<forall>q\<in>set pre. decodeEntry (fileMapOf files) q = None)
           \<and> p \<notin> set mipmapPatterns \<and> \<not> Contains p ''mipmap''"
proof -
  let ?fm = "fileMapOf files"
  have "decodeEntry ?fm p = None" if "p \<in> set mipmapPatterns" for p
  proof -
    from that have "Contains p ''mipmap''"
      using mipmapPatterns_category by (simp add: list_all_iff)
    then have "p \<notin> dom ?fm" using nomip by blast
    then show ?thesis by (auto simp: decodeEntry_def split: option.splits)
  qed
  then have s1: "firstDecodable ?fm mipmapPatterns = None"
    by (intro firstDecodable_None) blast
  have s2: "(if pkg \<noteq> [] then decodeToolPath ?fm adb else None) = None"
    using adb by auto
  from firstDecodable_Some[OF dr] obtain pre p post img where
    r: "drawablePatterns = pre @ p # post" "firstDecodable ?fm drawablePatterns = Some (img, p)"
      "decodeEntry ?fm p = Some img" "\<forall>q\<in>set pre. decodeEntry ?fm q = None" by blast
  have res: "extractIconFromAPK apkPath pkg (Inr files) names adb aapt = Inr (img, p)"
    unfolding extractIconFromAPK_def Let_def using s1 s2 aapt r(2) by simp
  have "p \<in> set drawablePatterns" using r(1) by (metis in_set_conv_decomp)
  then have nm: "\<not> Contains p ''mipmap''"
    using drawablePatterns_category by (simp add: list_all_iff)
  then have "p \<notin> set mipmapPatterns"
    using mipmapPatterns_category by (auto simp: list_all_iff)
  with r res nm show ?thesis by blast
qed

text \<open>
  With \<^verbatim>\<open>rish\<close> missing or failing, the introspection query still answers from the hint
  cache; it fails exactly when the cache has no valid hint.
\<close>

lemma getIconPathViaADB_without_rish:
  "fst (getIconPathViaADB ok visit fs now home pkg (Inl e))
     = (if getCachedIconPathWithTTL fs now home pkg \<noteq> []
        then Inr (getCachedIconPathWithTTL fs now home pkg) else Inl ExternalToolFailure)"
  by (simp add: getIconPathViaADB_def Let_def)

lemma decodeToolPath_empty: "decodeToolPath fm (Inr []) = None"
  by (simp add: decodeToolPath_def)

text \<open>
  Claim C3.  Let the archive open, hold no entry whose name contains \<^verbatim>\<open>mipmap\<close>, and
  hold at one of the fixed drawable paths an entry that opens and decodes; let \<^verbatim>\<open>rish\<close>
  be missing or fail, and let the archive tool fail or name no icon.  The introspection
  query of strategy 2 reads the hint cache before it looks for \<^verbatim>\<open>rish\<close>, so this is not
  enough: let also the package name be empty or the hint cache hold no valid hint that
  decodes in the archive (a hint is valid for seven days; a hint that names no entry, or
  an entry that does not decode, also as \<^verbatim>\<open>.png\<close> for \<^verbatim>\<open>.xml\<close>, decodes to nothing).  Then
  the extraction succeeds with the image of the first drawable path, in the order of the
  list, whose entry decodes, which is strategy 4: the path returned is none of the mipmap
  paths of strategy 1 and does not contain \<^verbatim>\<open>mipmap\<close>, as every result of strategy 5
  does.
\<close>

theorem extractIconFromAPK_drawable_fallback:
  fixes files :: "(string \<times> 'img ZipFile) list"
  assumes nomip: "\<forall>name\<in>dom (fileMapOf files). \<not> Contains name ''mipmap''"
    and hint: "pkg = [] \<or> decodeToolPath (fileMapOf files)
                 (Inr (getCachedIconPathWithTTL fs now home pkg)) = None"
    and aapt: "getIconPathFromAAPT2 aapt = Inl e2"
    and dr: "\<exists>p\<in>set drawablePatterns. decodeEntry (fileMapOf files) p \<noteq> None"
  shows "\<exists>pre p post img. drawablePatterns = pre @ p # post
           \<and> extractIconFromAPK apkPath pkg (Inr files) names
                (fst (getIconPathViaADB ok visit fs now home pkg (Inl e1))) aapt = Inr (img, p)
           \<and> firstDecodable (fileMapOf files) drawablePatterns = Some (img, p)
           \<and> decodeEntry (fileMapOf files) p = Some img
           \<and> (\<forall>q\<in>set pre. decodeEntry (fileMapOf files) q = None)
           \<and> p \<notin> set mipmapPatterns \<and> \<not> Contains p ''mipmap''"
proof -
  let ?fm = "fileMapOf files"
  let ?adb = "fst (getIconPathViaADB ok visit fs now home pkg (Inl e1))"
  have "decodeToolPath ?fm ?adb = None" if "pkg \<noteq> []"
  proof (cases "getCachedIconPathWithTTL fs now home pkg = []")
    case True
    then show ?thesis
      by (simp add: getIconPathViaADB_without_rish decodeToolPath_def)
  next
    case False
    then show ?thesis using hint that by (simp add: getIconPathViaADB_without_rish)
  qed
  then have adb: "pkg = [] \<or> decodeToolPath ?fm ?adb = None"
    by (cases "pkg = []") simp_all
  have s3: "decodeToolPath ?fm (getIconPathFromAAPT2 aapt) = None"
    using aapt by (simp add: decodeToolPath_def)
  show ?thesis by (rule extractIconFromAPK_strategy4 [OF nomip adb s3 dr])
qed

theorem extractIconFromAPK_drawable_fallback_witness:
  "list_all (\<lambda>name. \<not> Contains name ''mipmap'') (map fst drawableOnlyApk)
   \<and> dom (fileMapOf drawableOnlyApk) = set (map fst drawableOnlyApk)
   \<and> getCachedIconPathWithTTL Map.empty 1000 ''/home/u'' ''com.x'' = []
   \<and> getIconPathFromAAPT2 (Inl ExternalToolFailure) = Inl ExternalToolFailure
   \<and> decodeEntry (fileMapOf drawableOnlyApk) ''res/drawable-hdpi/ic_launcher.png'' = Some 5
   \<and> ''res/drawable-hdpi/ic_launcher.png'' \<in> set drawablePatterns
   \<and> extractIconFromAPK ''/data/app/com.x/base.apk'' ''com.x'' (Inr drawableOnlyApk)
        [''classes.dex'']
        (fst (getIconPathViaADB True densityMap Map.empty 1000 ''/home/u'' ''com.x''
                (Inl ExternalToolFailure)))
        (Inl ExternalToolFailure)
       = Inr (5, ''res/drawable-hdpi/ic_launcher.png'')
   \<and> (\<exists>pre p post img. drawablePatterns = pre @ p # post
         \<and> extractIconFromAPK ''/data/app/com.x/base.apk'' ''com.x'' (Inr drawableOnlyApk)
              [''classes.dex'']
              (fst (getIconPathViaADB True densityMap Map.empty 1000 ''/home/u'' ''com.x''
                      (Inl ExternalToolFailure)))
              (Inl ExternalToolFailure) = Inr (img, p)
         \<and> p \<notin> set mipmapPatterns)"
proof -
  have names: "list_all (\<lambda>name. \<not> Contains name ''mipmap'') (map fst drawableOnlyApk)"
    by code_simp
  have domain: "dom (fileMapOf drawableOnlyApk) = set (map fst drawableOnlyApk)"
    by (auto simp: fileMapOf_def dom_map_of_conv_image_fst)
  from names domain
  have nomip: "\<forall>name\<in>dom (fileMapOf drawableOnlyApk). \<not> Contains name ''mipmap''"
    by (simp add: list_all_iff)
  have cached: "getCachedIconPathWithTTL Map.empty 1000 ''/home/u'' ''com.x'' = []"
    by (simp add: getCachedIconPathWithTTL_def)
  have hint: "''com.x'' = [] \<or> decodeToolPath (fileMapOf drawableOnlyApk)
      (Inr (getCachedIconPathWithTTL Map.empty 1000 ''/home/u'' ''com.x'')) = None"
    by (simp add: cached decodeToolPath_def)
  have aapt: "getIconPathFromAAPT2 (Inl ExternalToolFailure) = Inl ExternalToolFailure"
    by (simp add: getIconPathFromAAPT2_def)
  have dec: "decodeEntry (fileMapOf drawableOnlyApk) ''res/drawable-hdpi/ic_launcher.png'' = Some 5"
    by (simp add: decodeEntry_def fileMapOf_def drawableOnlyApk_def)
  have mem: "''res/drawable-hdpi/ic_launcher.png'' \<in> set drawablePatterns"
    by (simp add: drawablePatterns_def)
  have dr: "\<exists>p\<in>set drawablePatterns. decodeEntry (fileMapOf drawableOnlyApk) p \<noteq> None"
    using dec mem by (intro bexI[of _ "''res/drawable-hdpi/ic_launcher.png''"]) simp_all
  from extractIconFromAPK_drawable_fallback [OF nomip hint aapt dr,
      where apkPath = "''/data/app/com.x/base.apk''" and names = "[''classes.dex'']"
        and ok = True and visit = densityMap and ?e1.0 = ExternalToolFailure]
  have ex: "\<exists>pre p post img. drawablePatterns = pre @ p # post
         \<and> extractIconFromAPK ''/data/app/com.x/base.apk'' ''com.x'' (Inr drawableOnlyApk)
              [''classes.dex'']
              (fst (getIconPathViaADB True densityMap Map.empty 1000 ''/home/u'' ''com.x''
                      (Inl ExternalToolFailure)))
              (Inl ExternalToolFailure) = Inr (img, p)
         \<and> firstDecodable (fileMapOf drawableOnlyApk) drawablePatterns = Some (img, p)
         \<and> p \<notin> set mipmapPatterns"
    by blast
  have fd: "firstDecodable (fileMapOf drawableOnlyApk) drawablePatterns
      = Some (5, ''res/drawable-hdpi/ic_launcher.png'')"
    by code_simp
  from ex fd
  have ev: "extractIconFromAPK ''/data/app/com.x/base.apk'' ''com.x'' (Inr drawableOnlyApk)
        [''classes.dex'']
        (fst (getIconPathViaADB True densityMap Map.empty 1000 ''/home/u'' ''com.x''
                (Inl ExternalToolFailure)))
        (Inl ExternalToolFailure)
       = Inr (5, ''res/drawable-hdpi/ic_launcher.png'')"
    by auto
  from ex have ex': "\<exists>pre p post img. drawablePatterns = pre @ p # post
         \<and> extractIconFromAPK ''/data/app/com.x/base.apk'' ''com.x'' (Inr drawableOnlyApk)
              [''classes.dex'']
              (fst (getIconPathViaADB True densityMap Map.empty 1000 ''/home/u'' ''com.x''
                      (Inl ExternalToolFailure)))
              (Inl ExternalToolFailure) = Inr (img, p)
         \<and> p \<notin> set mipmapPatterns"
    by blast
  from names domain cached aapt dec mem ev ex' show ?thesis by blast
qed

text \<open>
  With both tools unavailable and a one-day-old hint that names the \<^verbatim>\<open>mdpi\<close> drawable,
  strategy 2 answers with that entry, image 6, and not strategy 4, whose first decodable
  path is the \<^verbatim>\<open>hdpi\<close> drawable, image 5.
\<close>

theorem extractIconFromAPK_hint_before_drawable:
  "getCachedIconPathWithTTL hintFiles (1000 + day) ''/home/u'' ''com.x''
      = ''res/drawable-mdpi/ic_launcher.png''
   \<and> fst (getIconPathViaADB True densityMap hintFiles (1000 + day) ''/home/u'' ''com.x''
            (Inl ExternalToolFailure))
      = Inr ''res/drawable-mdpi/ic_launcher.png''
   \<and> firstDecodable (fileMapOf drawableOnlyApk) mipmapPatterns = None
   \<and> getIconPathFromAAPT2 (Inl ExternalToolFailure) = Inl ExternalToolFailure
   \<and> firstDecodable (fileMapOf drawableOnlyApk) drawablePatterns
      = Some (5, ''res/drawable-hdpi/ic_launcher.png'')
   \<and> extractIconFromAPK ''/data/app/com.x/base.apk'' ''com.x'' (Inr drawableOnlyApk)
        [''classes.dex'']
        (fst (getIconPathViaADB True densityMap hintFiles (1000 + day) ''/home/u'' ''com.x''
                (Inl ExternalToolFailure)))
        (Inl ExternalToolFailure)
      = Inr (6, ''res/drawable-mdpi/ic_launcher.png'')"
proof -
  have path: "getIconPathCachePath ''/home/u'' ''com.x''
      = ''/home/u/.config/tooie-shelf/icon-paths/com.x.txt''"
    by (simp add: getIconPathCachePath_def)
  have info: "hintFiles ''/home/u/.config/tooie-shelf/icon-paths/com.x.txt''
      = Some \<lparr>ModTime = 1000, content = ''res/drawable-mdpi/ic_launcher.png'', readable = True\<rparr>"
    by (simp add: hintFiles_def saveIconPathCache_def Let_def path)
  have age: "\<not> Since (1000 + day) 1000 > iconPathCacheTTL"
    by (simp add: Since_def day_def iconPathCacheTTL_def)
  have trim: "TrimSpace ''res/drawable-mdpi/ic_launcher.png'' = ''res/drawable-mdpi/ic_launcher.png''"
    by code_simp
  have cached: "getCachedIconPathWithTTL hintFiles (1000 + day) ''/home/u'' ''com.x''
      = ''res/drawable-mdpi/ic_launcher.png''"
    unfolding getCachedIconPathWithTTL_def Let_def path info using age trim by simp
  have adb: "fst (getIconPathViaADB True densityMap hintFiles (1000 + day) ''/home/u'' ''com.x''
            (Inl ExternalToolFailure)) = Inr ''res/drawable-mdpi/ic_launcher.png''"
    by (simp add: getIconPathViaADB_without_rish cached)
  have mip: "firstDecodable (fileMapOf drawableOnlyApk) mipmapPatterns = None"
    by code_simp
  have aapt: "getIconPathFromAAPT2 (Inl ExternalToolFailure) = Inl ExternalToolFailure"
    by (simp add: getIconPathFromAAPT2_def)
  have dra: "firstDecodable (fileMapOf drawableOnlyApk) drawablePatterns
      = Some (5, ''res/drawable-hdpi/ic_launcher.png'')"
    by code_simp
  have ev: "extractIconFromAPK ''/data/app/com.x/base.apk'' ''com.x'' (Inr drawableOnlyApk)
        [''classes.dex''] (Inr ''res/drawable-mdpi/ic_launcher.png'') (Inl ExternalToolFailure)
      = Inr (6, ''res/drawable-mdpi/ic_launcher.png'')"
    by code_simp
  show ?thesis using cached adb mip aapt dra ev by simp
qed

subsection \<open>Rounding to \<^verbatim>\<open>float64\<close>\<close>

lemma of_nat_pow2_le: "2 ^ k \<le> (n::nat) \<Longrightarrow> (2::rat) ^ k \<le> of_nat n"
proof -
  assume "2 ^ k \<le> n"
  then have "(of_nat (2 ^ k) :: rat) \<le> of_nat n" by (simp only: of_nat_le_iff)
  then show ?thesis by simp
qed

lemma of_nat_le_pow2: "(n::nat) \<le> 2 ^ k \<Longrightarrow> (of_nat n :: rat) \<le> 2 ^ k"
proof -
  assume "n \<le> 2 ^ k"
  then have "(of_nat n :: rat) \<le> of_nat (2 ^ k)" by (simp only: of_nat_le_iff)
  then show ?thesis by simp
qed

lemma bitLength_bounds:
  "0 < n \<Longrightarrow> 2 ^ (bitLength n - 1) \<le> n \<and> n < 2 ^ bitLength n"
proof (induction n rule: bitLength.induct)
  case (1 n)
  show ?case
  proof (cases "n div 2 = 0")
    case True
    with 1(2) have n1: "n = 1" by presburger
    have "bitLength 0 = 0" by (simp add: bitLength.simps)
    then have "bitLength 1 = 1" by (subst bitLength.simps) simp
    then show ?thesis using n1 by simp
  next
    case False
    then have pos: "0 < n div 2" by simp
    from 1(2) have n0: "n \<noteq> 0" by simp
    from 1(1)[OF n0 pos]
    have ih: "2 ^ (bitLength (n div 2) - 1) \<le> n div 2" "n div 2 < 2 ^ bitLength (n div 2)"
      by simp_all
    have b: "bitLength n = Suc (bitLength (n div 2))"
      using n0 by (subst bitLength.simps) simp
    have bpos: "0 < bitLength (n div 2)"
      using pos by (subst bitLength.simps) simp
    then have e: "(2::nat) ^ bitLength (n div 2) = 2 * 2 ^ (bitLength (n div 2) - 1)"
      by (cases "bitLength (n div 2)") simp_all
    have d: "2 * (n div 2) \<le> n" "n < 2 * (n div 2) + 2" by presburger+
    have lo: "2 ^ bitLength (n div 2) \<le> n" using ih(1) e d(1) by linarith
    have hi: "n < 2 * 2 ^ bitLength (n div 2)" using ih(2) d(2) by linarith
    show ?thesis using lo hi by (simp add: b)
  qed
qed

lemma bitLength_pos: "0 < n \<Longrightarrow> 0 < bitLength n"
  by (subst bitLength.simps) simp

lemma pow2_pos: "0 < pow2 e"
  by (simp add: pow2_def)

lemma pow2_nat: "pow2 (int n) = 2 ^ n"
  by (simp add: pow2_def)

lemma pow2_neg: "pow2 (- int n) = 1 / 2 ^ n"
  by (cases n) (simp_all add: pow2_def nat_add_distrib)

lemma pow2_powi: "pow2 e = 2 powi e"
  by (simp add: pow2_def power_int_def inverse_eq_divide power_one_over)

lemma pow2_add: "pow2 (a + b) = pow2 a * pow2 b"
  by (simp add: pow2_powi power_int_add)

lemma exponentOf_bounds:
  assumes "0 < x"
  shows "pow2 (exponentOf x) \<le> x \<and> x < pow2 (exponentOf x + 1)"
proof (cases "1 \<le> x")
  case True
  define n where "n = nat \<lfloor>x\<rfloor>"
  have fl: "1 \<le> \<lfloor>x\<rfloor>" using True by linarith
  then have npos: "0 < n" by (simp add: n_def)
  have nx: "of_nat n \<le> x" "x < of_nat n + 1"
  proof -
    have "(of_nat n :: rat) = of_int \<lfloor>x\<rfloor>" using fl by (simp add: n_def)
    then show "of_nat n \<le> x" "x < of_nat n + 1" by linarith+
  qed
  from bitLength_bounds[OF npos]
  have b: "2 ^ (bitLength n - 1) \<le> n" "n < 2 ^ bitLength n" by simp_all
  have bp: "0 < bitLength n" using npos by (rule bitLength_pos)
  have e: "exponentOf x = int (bitLength n - 1)"
    using True bp by (simp add: exponentOf_def n_def)
  have e1: "exponentOf x + 1 = int (bitLength n)" using e bp by simp
  have "(2::rat) ^ (bitLength n - 1) \<le> of_nat n"
    using b(1) by (rule of_nat_pow2_le)
  then have lo: "pow2 (exponentOf x) \<le> x" using nx(1) by (simp only: e pow2_nat)
  have "n + 1 \<le> 2 ^ bitLength n" using b(2) by simp
  then have "(of_nat (n + 1) :: rat) \<le> 2 ^ bitLength n"
    by (rule of_nat_le_pow2)
  then have "x < 2 ^ bitLength n" using nx(2) by simp
  then have hi: "x < pow2 (exponentOf x + 1)" by (simp only: e1 pow2_nat)
  from lo hi show ?thesis ..
next
  case False
  then have x1: "x < 1" by simp
  define y where "y = 1 / x"
  have y1: "1 < y" using assms x1 by (simp add: y_def)
  define m where "m = nat (\<lceil>y\<rceil> - 1)"
  have c2: "2 \<le> \<lceil>y\<rceil>" using y1 by linarith
  then have mpos: "0 < m" by (simp add: m_def)
  have my: "of_nat m < y" "y \<le> of_nat m + 1"
  proof -
    have "(of_nat m :: rat) = of_int \<lceil>y\<rceil> - 1" using c2 by (simp add: m_def)
    then show "of_nat m < y" "y \<le> of_nat m + 1" by linarith+
  qed
  from bitLength_bounds[OF mpos]
  have b: "2 ^ (bitLength m - 1) \<le> m" "m < 2 ^ bitLength m" by simp_all
  have bp: "0 < bitLength m" using mpos by (rule bitLength_pos)
  have e: "exponentOf x = - int (bitLength m)"
    using False by (simp add: exponentOf_def m_def y_def)
  have e1: "exponentOf x + 1 = - int (bitLength m - 1)" using e bp by simp
  have "m + 1 \<le> 2 ^ bitLength m" using b(2) by simp
  then have "(of_nat (m + 1) :: rat) \<le> 2 ^ bitLength m"
    by (rule of_nat_le_pow2)
  then have "of_nat m + 1 \<le> (2::rat) ^ bitLength m" by simp
  then have yle: "y \<le> 2 ^ bitLength m" using my(2) by linarith
  have "(2::rat) ^ (bitLength m - 1) \<le> of_nat m"
    using b(1) by (rule of_nat_pow2_le)
  then have ygt: "2 ^ (bitLength m - 1) < y" using my(1) by linarith
  have xy: "x = 1 / y" using assms by (simp add: y_def)
  have ypos: "0 < y" using y1 by simp
  have "1 / 2 ^ bitLength m \<le> 1 / y"
    using yle ypos by (intro divide_left_mono) simp_all
  moreover have "pow2 (exponentOf x) = 1 / 2 ^ bitLength m" by (simp only: e pow2_neg)
  ultimately have lo: "pow2 (exponentOf x) \<le> x" using xy by simp
  have "1 / y < 1 / 2 ^ (bitLength m - 1)"
    using ygt ypos by (intro divide_strict_left_mono) simp_all
  moreover have "pow2 (exponentOf x + 1) = 1 / 2 ^ (bitLength m - 1)"
    by (simp only: e1 pow2_neg)
  ultimately have hi: "x < pow2 (exponentOf x + 1)" using xy by simp
  from lo hi show ?thesis ..
qed

lemma roundHalfEven_close: "\<bar>of_int (roundHalfEven q) - q\<bar> \<le> 1 / 2"
proof -
  have fl: "of_int \<lfloor>q\<rfloor> \<le> q" "q < of_int \<lfloor>q\<rfloor> + 1" by linarith+
  show ?thesis
    unfolding roundHalfEven_def Let_def using fl by (auto simp: abs_le_iff)
qed

lemma roundHalfEven_of_int: "roundHalfEven (of_int k) = k"
  by (simp add: roundHalfEven_def)


lemma round64_error:
  assumes "0 < x"
  shows "\<bar>round64 x - x\<bar> \<le> x * unitRoundoff"
proof -
  define ulp where "ulp = pow2 (exponentOf x - 52)"
  define n where "n = roundHalfEven (x / ulp)"
  have up: "0 < ulp" by (simp add: ulp_def pow2_pos)
  have r: "round64 x = of_int n * ulp"
    using assms by (simp add: round64_def Let_def ulp_def n_def)
  have "exponentOf x - 52 = exponentOf x + (- 52)" by simp
  then have "ulp = pow2 (exponentOf x) * pow2 (- 52)"
    unfolding ulp_def by (simp only: pow2_add)
  also have "pow2 (- 52) = 1 / 2 ^ 52" by (simp add: pow2_def)
  finally have u: "ulp = pow2 (exponentOf x) / 2 ^ 52" by simp
  have "pow2 (exponentOf x) \<le> x" using exponentOf_bounds[OF assms] by simp
  then have "pow2 (exponentOf x) / 2 ^ 52 \<le> x / 2 ^ 52" by (intro divide_right_mono) simp_all
  then have ux: "ulp \<le> x / 2 ^ 52" by (simp only: u)
  have c: "\<bar>of_int n - x / ulp\<bar> \<le> 1 / 2" unfolding n_def by (rule roundHalfEven_close)
  have "round64 x - x = (of_int n - x / ulp) * ulp"
    using up by (simp add: r left_diff_distrib)
  then have "\<bar>round64 x - x\<bar> = \<bar>of_int n - x / ulp\<bar> * ulp"
    using up by (simp add: abs_mult)
  also have "\<dots> \<le> (1 / 2) * ulp" using c up by (intro mult_right_mono) simp_all
  also have "\<dots> \<le> (1 / 2) * (x / 2 ^ 52)" using ux by (intro mult_left_mono) simp_all
  also have "\<dots> = x * unitRoundoff" by (simp add: unitRoundoff_def)
  finally show ?thesis .
qed

lemma round64_of_int:
  assumes "0 < i" and "i < 2 ^ 53"
  shows "round64 (of_int i) = of_int i"
proof -
  let ?x = "of_int i :: rat"
  have xp: "0 < ?x" using assms by simp
  define e where "e = exponentOf ?x"
  have x1: "1 \<le> ?x" using assms(1) by (simp add: of_int_1_le_iff flip: One_rat_def)
  have e0: "0 \<le> e"
    unfolding e_def exponentOf_def using x1 assms(1) by (simp add: bitLength_pos)
  have "pow2 e \<le> ?x" unfolding e_def using exponentOf_bounds[OF xp] by simp
  also have "?x < 2 ^ 53"
  proof -
    have "(of_int i :: rat) < of_int (2 ^ 53)" using assms(2) by (simp only: of_int_less_iff)
    then show ?thesis by simp
  qed
  finally have "pow2 e < 2 ^ 53" .
  then have "(2::rat) ^ nat e < 2 ^ 53" using e0 by (simp add: pow2_def)
  then have "nat e < 53" by (simp only: power_strict_increasing_iff)
  then have e52: "e \<le> 52" by simp
  define k where "k = nat (52 - e)"
  have ke: "e - 52 = - int k" using e52 by (simp add: k_def)
  have ulp: "pow2 (exponentOf \<bar>?x\<bar> - 52) = 1 / 2 ^ k"
    using xp by (simp only: abs_of_pos flip: e_def) (simp only: ke pow2_neg)
  have q: "\<bar>?x\<bar> / (1 / 2 ^ k) = of_int (i * 2 ^ k)" using xp by simp
  have "round64 ?x = sgn ?x * of_int (roundHalfEven (\<bar>?x\<bar> / (1 / 2 ^ k))) * (1 / 2 ^ k)"
    using xp unfolding round64_def Let_def ulp by simp
  also have "\<dots> = of_int (i * 2 ^ k) * (1 / 2 ^ k)"
    by (simp only: q roundHalfEven_of_int sgn_pos[OF xp] mult_1)
  also have "\<dots> = ?x" by simp
  finally show ?thesis .
qed

lemma unitRoundoff_range: "0 < unitRoundoff" "unitRoundoff < 1"
  by (simp_all add: unitRoundoff_def)

lemma round64_bounds:
  assumes "0 < x"
  shows "x * (1 - unitRoundoff) \<le> round64 x" and "round64 x \<le> x * (1 + unitRoundoff)"
proof -
  from round64_error[OF assms]
  have a: "- (x * unitRoundoff) \<le> round64 x - x" "round64 x - x \<le> x * unitRoundoff"
    by (simp_all only: abs_le_iff) linarith+
  have b1: "x * (1 - unitRoundoff) = x - x * unitRoundoff" by (simp add: right_diff_distrib)
  have b2: "x * (1 + unitRoundoff) = x + x * unitRoundoff" by (simp add: distrib_left)
  show "x * (1 - unitRoundoff) \<le> round64 x" unfolding b1 using a(1) by linarith
  show "round64 x \<le> x * (1 + unitRoundoff)" unfolding b2 using a(2) by linarith
qed

lemma round64_pos: "0 < x \<Longrightarrow> 0 < round64 x"
proof -
  assume x: "0 < x"
  have "0 < x * (1 - unitRoundoff)" using x unitRoundoff_range by (intro mult_pos_pos) simp_all
  with round64_bounds(1)[OF x] show ?thesis by linarith
qed


lemma clamp_close:
  fixes v x d :: rat
  assumes "0 < v" and "0 < x" and "\<bar>v - x\<bar> \<le> d"
  shows "\<bar>of_int (if intOfFloat v \<le> 0 then 1 else intOfFloat v) - x\<bar> < 1 + d"
proof -
  have t: "intOfFloat v = \<lfloor>v\<rfloor>" using assms(1) by (simp add: intOfFloat_def)
  have fl: "of_int \<lfloor>v\<rfloor> \<le> v" "v < of_int \<lfloor>v\<rfloor> + 1" by linarith+
  have d: "v - x \<le> d" "x - v \<le> d" using assms(3) by (simp_all only: abs_le_iff) linarith+
  have close: "\<bar>of_int k - x\<bar> < 1 + d" if "of_int k - x < 1 + d" "x - of_int k < 1 + d" for k :: int
    using that by (simp add: abs_less_iff)
  show ?thesis
  proof (cases "\<lfloor>v\<rfloor> \<le> 0")
    case True
    then have "(of_int \<lfloor>v\<rfloor> :: rat) \<le> 0" by simp
    with fl(2) have v1: "v < 1" by linarith
    have c: "(if intOfFloat v \<le> 0 then 1 else intOfFloat v) = 1" using True t by simp
    have "of_int 1 - x < 1 + d" "x - of_int 1 < 1 + d" using v1 assms(2) d by simp_all
    then show ?thesis unfolding c by (rule close)
  next
    case False
    then have c: "(if intOfFloat v \<le> 0 then 1 else intOfFloat v) = \<lfloor>v\<rfloor>" using t by simp
    have "of_int \<lfloor>v\<rfloor> - x < 1 + d" "x - of_int \<lfloor>v\<rfloor> < 1 + d" using fl d by linarith+
    then show ?thesis unfolding c by (rule close)
  qed
qed

lemma clamp_le:
  fixes v :: rat
  assumes "0 < v" and "v < of_int n + 1" and "1 \<le> n"
  shows "(if intOfFloat v \<le> 0 then 1 else intOfFloat v) \<le> n"
proof -
  have "intOfFloat v = \<lfloor>v\<rfloor>" using assms(1) by (simp add: intOfFloat_def)
  moreover have "\<lfloor>v\<rfloor> \<le> n" using assms(2) by linarith
  ultimately show ?thesis using assms(3) by simp
qed

lemma scaled_dimension:
  fixes a b s sc :: rat
  assumes bp: "0 < b" and sp: "0 < s"
    and lo: "s * (1 - unitRoundoff) \<le> sc" and hi: "sc \<le> s * (1 + unitRoundoff)"
    and xa: "b * s \<le> a" and a31: "a \<le> 2 ^ 31"
  shows "0 < round64 (b * sc)" and "\<bar>round64 (b * sc) - b * s\<bar> \<le> 3 / 2 ^ 22"
proof -
  define u where "u = unitRoundoff"
  define x where "x = b * s"
  define p where "p = b * sc"
  define v where "v = round64 p"
  have u: "0 < u" "u < 1" using unitRoundoff_range by (simp_all add: u_def)
  have xp: "0 < x" using bp sp by (simp add: x_def)
  have lo': "s * (1 - u) \<le> sc" and hi': "sc \<le> s * (1 + u)" using lo hi by (simp_all add: u_def)
  have "b * (s * (1 - u)) \<le> b * sc" using lo' bp by (intro mult_left_mono) simp_all
  then have p_lo: "x * (1 - u) \<le> p" by (simp add: x_def p_def mult.assoc)
  have "b * sc \<le> b * (s * (1 + u))" using hi' bp by (intro mult_left_mono) simp_all
  then have p_hi: "p \<le> x * (1 + u)" by (simp add: x_def p_def mult.assoc)
  have "0 < x * (1 - u)" using xp u by (intro mult_pos_pos) simp_all
  with p_lo have pp: "0 < p" by linarith
  have vb: "p * (1 - u) \<le> v" "v \<le> p * (1 + u)"
    using round64_bounds[OF pp] by (simp_all add: v_def u_def)
  have "x * (1 - u) * (1 - u) \<le> p * (1 - u)" using p_lo u by (intro mult_right_mono) simp_all
  with vb(1) have v_lo: "x * (1 - u) * (1 - u) \<le> v" by linarith
  have "p * (1 + u) \<le> x * (1 + u) * (1 + u)" using p_hi u by (intro mult_right_mono) simp_all
  with vb(2) have v_hi: "v \<le> x * (1 + u) * (1 + u)" by linarith
  have e1: "x * (1 + u) * (1 + u) = x + x * (2 * u + u * u)" by (simp add: algebra_simps)
  have e2: "x * (1 - u) * (1 - u) = x - x * (2 * u - u * u)" by (simp add: algebra_simps)
  have uu: "0 \<le> u * u" "u * u \<le> u"
  proof -
    show "0 \<le> u * u" by simp
    have "u * u \<le> 1 * u" using u by (intro mult_right_mono) simp_all
    then show "u * u \<le> u" by simp
  qed
  have k1: "2 * u + u * u \<le> 3 * u" "2 * u - u * u \<le> 3 * u" "0 \<le> 2 * u + u * u"
    using uu u by linarith+
  have xle: "x \<le> 2 ^ 31" using xa a31 by (simp add: x_def)
  have m1: "x * (2 * u + u * u) \<le> 2 ^ 31 * (3 * u)"
    using xle k1(1) k1(3) xp by (intro mult_mono) simp_all
  have "x * (2 * u - u * u) \<le> x * (3 * u)" using k1(2) xp by (intro mult_left_mono) simp_all
  also have "\<dots> \<le> 2 ^ 31 * (3 * u)" using xle u by (intro mult_right_mono) simp_all
  finally have m2: "x * (2 * u - u * u) \<le> 2 ^ 31 * (3 * u)" .
  have c: "(2::rat) ^ 31 * (3 * u) = 3 / 2 ^ 22" by (simp add: u_def unitRoundoff_def)
  have "v - x \<le> 3 / 2 ^ 22" using v_hi m1 unfolding e1 c by linarith
  moreover have "x - v \<le> 3 / 2 ^ 22" using v_lo m2 unfolding e2 c by linarith
  ultimately have "\<bar>v - x\<bar> \<le> 3 / 2 ^ 22" by (intro abs_leI) linarith+
  then show "\<bar>round64 (b * sc) - b * s\<bar> \<le> 3 / 2 ^ 22" by (simp only: v_def p_def x_def)
  show "0 < round64 (b * sc)" using round64_pos[OF pp] by (simp only: p_def)
qed

lemma scale_bounds:
  fixes q1 q2 :: rat
  assumes "0 < q1" and "0 < q2"
  defines "sc \<equiv> (if round64 q2 < round64 q1 then round64 q2 else round64 q1)"
  shows "min q1 q2 * (1 - unitRoundoff) \<le> sc" and "sc \<le> min q1 q2 * (1 + unitRoundoff)"
proof -
  have u: "0 \<le> 1 - unitRoundoff" "0 \<le> 1 + unitRoundoff" using unitRoundoff_range by simp_all
  note b1 = round64_bounds[OF assms(1)] and b2 = round64_bounds[OF assms(2)]
  have m1: "min q1 q2 * (1 - unitRoundoff) \<le> q1 * (1 - unitRoundoff)"
    using u by (intro mult_right_mono) simp_all
  have m2: "min q1 q2 * (1 - unitRoundoff) \<le> q2 * (1 - unitRoundoff)"
    using u by (intro mult_right_mono) simp_all
  show "min q1 q2 * (1 - unitRoundoff) \<le> sc"
    using m1 m2 b1(1) b2(1) by (simp add: sc_def)
  have "sc \<le> round64 q1" "sc \<le> round64 q2" by (simp_all add: sc_def)
  then have "sc \<le> q1 * (1 + unitRoundoff)" "sc \<le> q2 * (1 + unitRoundoff)"
    using b1(2) b2(2) by linarith+
  then show "sc \<le> min q1 q2 * (1 + unitRoundoff)" by (simp add: min_def)
qed


subsection \<open>The scaler\<close>

lemma ScaleImageAspectFit_positive:
  "0 < fst src \<Longrightarrow> 0 < snd src \<Longrightarrow>
   0 < fst (ScaleImageAspectFit ops src maxW maxH) \<and> 0 < snd (ScaleImageAspectFit ops src maxW maxH)"
  by (simp add: ScaleImageAspectFit_def ScaleImage_def Let_def)

lemma float64_ofInt:
  assumes "0 < i" and "i < 2 ^ 31"
  shows "ofInt float64Ops i = of_int i"
proof -
  have "i < 2 ^ 53" using assms(2) by simp
  with assms(1) show ?thesis by (simp add: float64Ops_def round64_of_int)
qed

lemma float64_result:
  assumes w: "0 < srcW" "srcW < 2 ^ 31" and h: "0 < srcH" "srcH < 2 ^ 31"
    and mw: "0 < maxW" "maxW < 2 ^ 31" and mh: "0 < maxH" "maxH < 2 ^ 31"
  defines "sc \<equiv> (if round64 (of_int maxH / of_int srcH) < round64 (of_int maxW / of_int srcW)
                   then round64 (of_int maxH / of_int srcH)
                   else round64 (of_int maxW / of_int srcW))"
  shows "ScaleImageAspectFit float64Ops (srcW, srcH) maxW maxH
     = ((if intOfFloat (round64 (of_int srcW * sc)) \<le> 0 then 1
         else intOfFloat (round64 (of_int srcW * sc))),
        (if intOfFloat (round64 (of_int srcH * sc)) \<le> 0 then 1
         else intOfFloat (round64 (of_int srcH * sc))))"
proof -
  note conv = float64_ofInt[OF w] float64_ofInt[OF h] float64_ofInt[OF mw] float64_ofInt[OF mh]
  have ops: "fdiv float64Ops = (\<lambda>a b. round64 (a / b))" "fmul float64Ops = (\<lambda>a b. round64 (a * b))"
    "fless float64Ops = (<)" "toInt float64Ops = intOfFloat"
    by (simp_all add: float64Ops_def)
  show ?thesis
    using mw(1) mh(1)
    by (simp add: ScaleImageAspectFit_def ScaleImage_def Let_def conv ops sc_def)
qed

lemma float64_dimensions:
  assumes w: "0 < srcW" "srcW < 2 ^ 31" and h: "0 < srcH" "srcH < 2 ^ 31"
    and mw: "0 < maxW" "maxW < 2 ^ 31" and mh: "0 < maxH" "maxH < 2 ^ 31"
  defines "s \<equiv> min (of_int maxW / of_int srcW) (of_int maxH / of_int srcH :: rat)"
  shows "\<bar>of_int (fst (ScaleImageAspectFit float64Ops (srcW, srcH) maxW maxH)) - of_int srcW * s\<bar>
           < 1 + 1 / 10 ^ 6"
    and "\<bar>of_int (snd (ScaleImageAspectFit float64Ops (srcW, srcH) maxW maxH)) - of_int srcH * s\<bar>
           < 1 + 1 / 10 ^ 6"
    and "fst (ScaleImageAspectFit float64Ops (srcW, srcH) maxW maxH) \<le> maxW"
    and "snd (ScaleImageAspectFit float64Ops (srcW, srcH) maxW maxH) \<le> maxH"
proof -
  let ?q1 = "of_int maxW / of_int srcW :: rat" and ?q2 = "of_int maxH / of_int srcH :: rat"
  define sc where "sc = (if round64 ?q2 < round64 ?q1 then round64 ?q2 else round64 ?q1)"
  have q: "0 < ?q1" "0 < ?q2" using w h mw mh by simp_all
  have sp: "0 < s" using q by (simp add: s_def)
  have sb: "s * (1 - unitRoundoff) \<le> sc" "sc \<le> s * (1 + unitRoundoff)"
    unfolding s_def sc_def by (rule scale_bounds[OF q])+
  have bw: "(0::rat) < of_int srcW" and bh: "(0::rat) < of_int srcH" using w h by simp_all
  have xw: "of_int srcW * s \<le> (of_int maxW :: rat)"
  proof -
    have "of_int srcW * s \<le> of_int srcW * ?q1"
      using bw unfolding s_def by (intro mult_left_mono) simp_all
    also have "\<dots> = of_int maxW" using bw by simp
    finally show ?thesis .
  qed
  have xh: "of_int srcH * s \<le> (of_int maxH :: rat)"
  proof -
    have "of_int srcH * s \<le> of_int srcH * ?q2"
      using bh unfolding s_def by (intro mult_left_mono) simp_all
    also have "\<dots> = of_int maxH" using bh by simp
    finally show ?thesis .
  qed
  have aw: "(of_int maxW :: rat) \<le> 2 ^ 31"
  proof -
    have "(of_int maxW :: rat) \<le> of_int (2 ^ 31)" using mw(2) by simp
    then show ?thesis by simp
  qed
  have ah: "(of_int maxH :: rat) \<le> 2 ^ 31"
  proof -
    have "(of_int maxH :: rat) \<le> of_int (2 ^ 31)" using mh(2) by simp
    then show ?thesis by simp
  qed
  note dw = scaled_dimension[OF bw sp sb xw aw] and dh = scaled_dimension[OF bh sp sb xh ah]
  have r: "ScaleImageAspectFit float64Ops (srcW, srcH) maxW maxH
     = ((if intOfFloat (round64 (of_int srcW * sc)) \<le> 0 then 1
         else intOfFloat (round64 (of_int srcW * sc))),
        (if intOfFloat (round64 (of_int srcH * sc)) \<le> 0 then 1
         else intOfFloat (round64 (of_int srcH * sc))))"
    unfolding sc_def by (rule float64_result[OF w h mw mh])
  have xwp: "(0::rat) < of_int srcW * s" and xhp: "(0::rat) < of_int srcH * s"
    using bw bh sp by simp_all
  have small: "1 + 3 / 2 ^ 22 < (1 + 1 / 10 ^ 6 :: rat)" by simp
  show "\<bar>of_int (fst (ScaleImageAspectFit float64Ops (srcW, srcH) maxW maxH)) - of_int srcW * s\<bar>
           < 1 + 1 / 10 ^ 6"
    using clamp_close[OF dw(1) xwp dw(2)] small unfolding r fst_conv by linarith
  show "\<bar>of_int (snd (ScaleImageAspectFit float64Ops (srcW, srcH) maxW maxH)) - of_int srcH * s\<bar>
           < 1 + 1 / 10 ^ 6"
    using clamp_close[OF dh(1) xhp dh(2)] small unfolding r snd_conv by linarith
  have vw: "round64 (of_int srcW * sc) < of_int maxW + 1"
  proof -
    have "round64 (of_int srcW * sc) - of_int srcW * s \<le> 3 / 2 ^ 22"
      using dw(2) by (simp only: abs_le_iff)
    moreover have "(3 / 2 ^ 22 :: rat) < 1" by simp
    ultimately show ?thesis using xw by linarith
  qed
  have vh: "round64 (of_int srcH * sc) < of_int maxH + 1"
  proof -
    have "round64 (of_int srcH * sc) - of_int srcH * s \<le> 3 / 2 ^ 22"
      using dh(2) by (simp only: abs_le_iff)
    moreover have "(3 / 2 ^ 22 :: rat) < 1" by simp
    ultimately show ?thesis using xh by linarith
  qed
  show "fst (ScaleImageAspectFit float64Ops (srcW, srcH) maxW maxH) \<le> maxW"
    unfolding r fst_conv using mw(1) by (intro clamp_le[OF dw(1) vw]) simp
  show "snd (ScaleImageAspectFit float64Ops (srcW, srcH) maxW maxH) \<le> maxH"
    unfolding r snd_conv using mh(1) by (intro clamp_le[OF dh(1) vh]) simp
qed

text \<open>
  A source of 7 by 7 pixels in a box of 61 by 61: the quotient \<open>61 / 7\<close> is rounded down,
  its product with 7 is rounded to the \<^verbatim>\<open>float64\<close> just below 61, and the truncation
  gives 60 by 60, more than one pixel below the exact scaling.
\<close>

lemma ScaleImageAspectFit_rounds_below_the_box:
  "ScaleImageAspectFit float64Ops (7, 7) 61 61 = (60, 60)
   \<and> round64 (61 / 7) = 4905706736957147 / 562949953421312
   \<and> round64 (7 * round64 (61 / 7)) = 8584986789675007 / 140737488355328"
  by code_simp

text \<open>
  Claim C7, as the code has it.  For a source of positive width and height the result
  has positive width and height, whatever the bounds and whatever the floating-point
  operations compute.  In \<^verbatim>\<open>float64\<close>, for source dimensions and bounds that are positive
  and below \<open>2\<^sup>3\<^sup>1\<close>, each dimension of the result is within its bound and less than one
  pixel and a millionth away from the source dimension times
  \<open>min (maxW / srcW) (maxH / srcH)\<close>: the aspect ratio is kept up to the truncation to
  whole pixels, the clamp to 1 and the rounding of three operations, not up to rounding
  error alone.
\<close>

theorem ScaleImageAspectFit_dimensions:
  fixes ops :: "'f FloatOps"
  shows "(0 < srcW \<and> 0 < srcH
            \<longrightarrow> 0 < fst (ScaleImageAspectFit ops (srcW, srcH) maxW maxH)
              \<and> 0 < snd (ScaleImageAspectFit ops (srcW, srcH) maxW maxH))
       \<and> (0 < srcW \<and> srcW < 2 ^ 31 \<and> 0 < srcH \<and> srcH < 2 ^ 31
          \<and> 0 < maxW \<and> maxW < 2 ^ 31 \<and> 0 < maxH \<and> maxH < 2 ^ 31
            \<longrightarrow> \<bar>of_int (fst (ScaleImageAspectFit float64Ops (srcW, srcH) maxW maxH))
                   - of_int srcW * min (of_int maxW / of_int srcW) (of_int maxH / of_int srcH :: rat)\<bar>
                  < 1 + 1 / 10 ^ 6
              \<and> \<bar>of_int (snd (ScaleImageAspectFit float64Ops (srcW, srcH) maxW maxH))
                   - of_int srcH * min (of_int maxW / of_int srcW) (of_int maxH / of_int srcH :: rat)\<bar>
                  < 1 + 1 / 10 ^ 6
              \<and> fst (ScaleImageAspectFit float64Ops (srcW, srcH) maxW maxH) \<le> maxW
              \<and> snd (ScaleImageAspectFit float64Ops (srcW, srcH) maxW maxH) \<le> maxH)"
proof (intro conjI impI)
  assume "0 < srcW \<and> 0 < srcH"
  then show "0 < fst (ScaleImageAspectFit ops (srcW, srcH) maxW maxH)"
    and "0 < snd (ScaleImageAspectFit ops (srcW, srcH) maxW maxH)"
    using ScaleImageAspectFit_positive[of "(srcW, srcH)" ops maxW maxH] by simp_all
next
  assume a: "0 < srcW \<and> srcW < 2 ^ 31 \<and> 0 < srcH \<and> srcH < 2 ^ 31
          \<and> 0 < maxW \<and> maxW < 2 ^ 31 \<and> 0 < maxH \<and> maxH < 2 ^ 31"
  then have w: "0 < srcW" "srcW < 2 ^ 31" and h: "0 < srcH" "srcH < 2 ^ 31"
    and mw: "0 < maxW" "maxW < 2 ^ 31" and mh: "0 < maxH" "maxH < 2 ^ 31"
    by blast+
  note d = float64_dimensions[OF w h mw mh]
  show "\<bar>of_int (fst (ScaleImageAspectFit float64Ops (srcW, srcH) maxW maxH))
          - of_int srcW * min (of_int maxW / of_int srcW) (of_int maxH / of_int srcH :: rat)\<bar>
        < 1 + 1 / 10 ^ 6" by (rule d(1))
  show "\<bar>of_int (snd (ScaleImageAspectFit float64Ops (srcW, srcH) maxW maxH))
          - of_int srcH * min (of_int maxW / of_int srcW) (of_int maxH / of_int srcH :: rat)\<bar>
        < 1 + 1 / 10 ^ 6" by (rule d(2))
  show "fst (ScaleImageAspectFit float64Ops (srcW, srcH) maxW maxH) \<le> maxW" by (rule d(3))
  show "snd (ScaleImageAspectFit float64Ops (srcW, srcH) maxW maxH) \<le> maxH" by (rule d(4))
qed

theorem ScaleImageAspectFit_dimensions_witness:
  "(0::int) < 100 \<and> (100::int) < 2 ^ 31 \<and> (0::int) < 50 \<and> (0::int) < 30
   \<and> ScaleImageAspectFit float64Ops (100, 50) 30 30 = (30, 15)
   \<and> 0 < fst (ScaleImageAspectFit float64Ops (100, 50) 30 30)
   \<and> 0 < snd (ScaleImageAspectFit float64Ops (100, 50) 30 30)
   \<and> \<bar>of_int (snd (ScaleImageAspectFit float64Ops (100, 50) 30 30))
        - of_int 50 * min (of_int 30 / of_int 100) (of_int 30 / of_int 50 :: rat)\<bar> < 1 + 1 / 10 ^ 6
   \<and> fst (ScaleImageAspectFit float64Ops (100, 50) 30 30) \<le> 30"
proof -
  have e: "ScaleImageAspectFit float64Ops (100, 50) 30 30 = (30, 15)" by code_simp
  from ScaleImageAspectFit_dimensions [of 100 50 float64Ops 30 30] e
  show ?thesis by simp
qed

text \<open>
  A source of 4 by 1 pixels in a box of 2 by 2: the scale is \<open>1/2\<close>, the width 2, the
  height \<open>int(0.5) = 0\<close>, clamped to 1.  No operation rounds at this input.  The result is
  2 by 1, of aspect ratio 2, where the source has 4.
\<close>

theorem ScaleImageAspectFit_changes_aspect_ratio:
  "ScaleImageAspectFit float64Ops (4, 1) 2 2 = (2, 1)
   \<and> (of_int 4 / of_int 1 :: rat) - of_int 2 / of_int 1 = 2"
proof -
  have "ScaleImageAspectFit float64Ops (4, 1) 2 2 = (2, 1)" by code_simp
  then show ?thesis by simp
qed

subsection \<open>The hint cache\<close>

lemma TrimSpace_trimmed: "trimmed s \<Longrightarrow> TrimSpace s = s"
proof -
  assume t: "trimmed s"
  then have ne: "s \<noteq> []" and h: "\<not> isSpace (hd s)" and l: "\<not> isSpace (last s)"
    by (simp_all add: trimmed_def)
  from ne h have 1: "dropWhile isSpace s = s" by (cases s) auto
  have "rev s \<noteq> []" using ne by simp
  moreover have "hd (rev s) = last s" using ne by (simp add: hd_rev)
  ultimately obtain c r where cr: "rev s = c # r" and "c = last s"
    by (cases "rev s") auto
  with l have "\<not> isSpace c" by simp
  then have 2: "dropWhile isSpace (rev s) = rev s" unfolding cr by simp
  from 1 2 show ?thesis by (simp add: TrimSpace_def)
qed

lemma TrimSpace_prefix:
  "dropWhile isSpace p = TrimSpace p @ rev (takeWhile isSpace (rev (dropWhile isSpace p)))"
proof -
  let ?q = "dropWhile isSpace p"
  have "rev (takeWhile isSpace (rev ?q) @ dropWhile isSpace (rev ?q)) = rev (rev ?q)"
    by (simp only: takeWhile_dropWhile_id)
  then have "rev (dropWhile isSpace (rev ?q)) @ rev (takeWhile isSpace (rev ?q)) = ?q"
    by (simp only: rev_append rev_rev_ident)
  then show ?thesis by (simp only: TrimSpace_def)
qed

lemma TrimSpace_hd: "TrimSpace p \<noteq> [] \<Longrightarrow> \<not> isSpace (hd (TrimSpace p))"
proof -
  assume ne: "TrimSpace p \<noteq> []"
  let ?q = "dropWhile isSpace p"
  have q: "?q = TrimSpace p @ rev (takeWhile isSpace (rev ?q))" by (rule TrimSpace_prefix)
  have qne: "?q \<noteq> []"
  proof
    assume e: "?q = []"
    from q have "length (TrimSpace p) \<le> length ?q" by (metis length_append le_add1)
    moreover from e have "length ?q = 0" by (simp only: list.size(3))
    ultimately have "length (TrimSpace p) = 0" by linarith
    then have "TrimSpace p = []" by (simp only: length_0_conv)
    with ne show False by blast
  qed
  then have "\<not> isSpace (hd ?q)" by (rule hd_dropWhile)
  moreover have "hd ?q = hd (TrimSpace p)"
    using ne q by (metis hd_append2)
  ultimately show ?thesis by simp
qed

lemma HasSuffix_last:
  "HasSuffix s suf \<Longrightarrow> suf \<noteq> [] \<Longrightarrow> s \<noteq> [] \<and> last s = last suf"
proof -
  assume h: "HasSuffix s suf" and ne: "suf \<noteq> []"
  then have d: "drop (length s - length suf) s = suf" and l: "length suf \<le> length s"
    by (simp_all add: HasSuffix_def)
  from l ne have sne: "s \<noteq> []" by auto
  have "s = take (length s - length suf) s @ suf" using d by (metis append_take_drop_id)
  then have "last s = last suf" using ne by (metis last_appendR)
  with sne show ?thesis by simp
qed

lemma TrimSuffix_take: "\<exists>n. TrimSuffix s suf = take n s"
proof (cases "HasSuffix s suf")
  case True
  then show ?thesis by (auto simp: TrimSuffix_def)
next
  case False
  then have "TrimSuffix s suf = take (length s) s" by (simp add: TrimSuffix_def)
  then show ?thesis by blast
qed

lemma cut_at_space_hd:
  "x \<noteq> [] \<Longrightarrow> (case Index x '' '' of None \<Rightarrow> x | Some idx \<Rightarrow> take idx x) \<noteq> [] \<Longrightarrow>
   hd (case Index x '' '' of None \<Rightarrow> x | Some idx \<Rightarrow> take idx x) = hd x"
  by (cases "Index x '' ''") (auto simp: hd_take)

lemma cut_at_space_nonempty:
  "(case Index x '' '' of None \<Rightarrow> x | Some idx \<Rightarrow> take idx x) \<noteq> [] \<Longrightarrow> x \<noteq> []"
  by (cases "Index x '' ''") auto

lemma iconPart_png_trimmed:
  assumes "HasSuffix (case Index (TrimSpace p) '' '' of None \<Rightarrow> TrimSpace p
                      | Some idx \<Rightarrow> take idx (TrimSpace p)) ''.png''"
  shows "trimmed (case Index (TrimSpace p) '' '' of None \<Rightarrow> TrimSpace p
                  | Some idx \<Rightarrow> take idx (TrimSpace p))"
proof -
  let ?x = "TrimSpace p"
  let ?c = "case Index ?x '' '' of None \<Rightarrow> ?x | Some idx \<Rightarrow> take idx ?x"
  from HasSuffix_last[OF assms] have ne: "?c \<noteq> []" and l: "last ?c = CHR ''g''" by simp_all
  from cut_at_space_nonempty[OF ne] have xne: "?x \<noteq> []" .
  have "hd ?c = hd ?x" using cut_at_space_hd[OF xne ne] .
  with TrimSpace_hd[OF xne] have "\<not> isSpace (hd ?c)" by simp
  moreover have "\<not> isSpace (last ?c)" using l by (simp add: isSpace_def)
  ultimately show ?thesis using ne by (simp add: trimmed_def)
qed

lemma iconPart_xml_trimmed:
  assumes "HasSuffix (case Index (TrimSpace p) '' '' of None \<Rightarrow> TrimSpace p
                      | Some idx \<Rightarrow> take idx (TrimSpace p)) ''.xml''"
  shows "trimmed (TrimSuffix (case Index (TrimSpace p) '' '' of None \<Rightarrow> TrimSpace p
                  | Some idx \<Rightarrow> take idx (TrimSpace p)) ''.xml'' @ ''.png'')"
proof -
  let ?x = "TrimSpace p"
  let ?c = "case Index ?x '' '' of None \<Rightarrow> ?x | Some idx \<Rightarrow> take idx ?x"
  let ?t = "TrimSuffix ?c ''.xml''"
  from HasSuffix_last[OF assms] have ne: "?c \<noteq> []" by simp
  from cut_at_space_nonempty[OF ne] have xne: "?x \<noteq> []" .
  have hc: "\<not> isSpace (hd ?c)" using cut_at_space_hd[OF xne ne] TrimSpace_hd[OF xne] by simp
  obtain n where t: "?t = take n ?c" using TrimSuffix_take by blast
  have "\<not> isSpace (hd (?t @ ''.png''))"
  proof (cases "?t = []")
    case True
    then show ?thesis by (simp add: isSpace_def)
  next
    case False
    then have "hd (?t @ ''.png'') = hd ?t" by simp
    also have "\<dots> = hd ?c"
    proof -
      from False t have "n \<noteq> 0" by (metis take_0)
      then show ?thesis using t by (simp add: hd_take)
    qed
    finally show ?thesis using hc by simp
  qed
  moreover have "\<not> isSpace (last (?t @ ''.png''))" by (simp add: isSpace_def)
  ultimately show ?thesis by (simp add: trimmed_def)
qed

lemma pmDumpStep_trimmed:
  assumes "fst st = [] \<or> trimmed (fst st)"
  shows "fst (pmDumpStep visit st l) = [] \<or> trimmed (fst (pmDumpStep visit st l))"
proof -
  obtain b h where st: "st = (b, h)" by (cases st)
  let ?p = "secondField (TrimSpace l) ''icon=''"
  let ?c = "case Index (TrimSpace ?p) '' '' of None \<Rightarrow> TrimSpace ?p
            | Some idx \<Rightarrow> take idx (TrimSpace ?p)"
  have step: "pmDumpStep visit (b, h) l =
      (if Contains (TrimSpace l) ''icon='' then
         (if HasSuffix ?c ''.png'' then
            (if extractResolution visit ?c > h then (?c, extractResolution visit ?c) else (b, h))
          else if HasSuffix ?c ''.xml'' \<and> b = [] then (TrimSuffix ?c ''.xml'' @ ''.png'', h)
          else (b, h))
       else (b, h))"
    by (simp add: pmDumpStep_def Let_def)
  have keep: "fst (b, h) = [] \<or> trimmed (fst (b, h))" using assms st by simp
  show ?thesis
  proof (cases "Contains (TrimSpace l) ''icon=''")
    case False
    with step keep st show ?thesis by simp
  next
    case c: True
    show ?thesis
    proof (cases "HasSuffix ?c ''.png''")
      case True
      from iconPart_png_trimmed[OF True] have "trimmed ?c" .
      with step keep st c True show ?thesis by (cases "extractResolution visit ?c > h") simp_all
    next
      case np: False
      show ?thesis
      proof (cases "HasSuffix ?c ''.xml'' \<and> b = []")
        case True
        then have "trimmed (TrimSuffix ?c ''.xml'' @ ''.png'')"
          using iconPart_xml_trimmed[of ?p] by blast
        with step st c np True show ?thesis by simp
      next
        case False
        with step keep st c np show ?thesis by auto
      qed
    qed
  qed
qed

lemma foldl_pmDumpStep_trimmed:
  "fst st = [] \<or> trimmed (fst st) \<Longrightarrow>
   fst (foldl (pmDumpStep visit) st ls) = [] \<or> trimmed (fst (foldl (pmDumpStep visit) st ls))"
proof (induction ls arbitrary: st)
  case Nil
  then show ?case by simp
next
  case (Cons l ls)
  from pmDumpStep_trimmed[OF Cons.prems, of visit l]
  show ?case using Cons.IH[of "pmDumpStep visit st l"] by simp
qed

lemma parseIconFromPMDump_trimmed:
  "parseIconFromPMDump visit out \<noteq> [] \<Longrightarrow>
   TrimSpace (parseIconFromPMDump visit out) = parseIconFromPMDump visit out"
  using foldl_pmDumpStep_trimmed[of "([], 0)" visit "Split out CHR ''\<newline>''"]
  by (auto simp: parseIconFromPMDump_def intro: TrimSpace_trimmed)

text \<open>
  Claim C9.  Let a hint be not empty and either free of surrounding white space or the
  result of \<open>parseIconFromPMDump\<close>, which is all that \<open>getIconPathViaADB\<close> ever writes.
  Written at time \<open>T\<close>, it is returned six days later, and \<open>getIconPathViaADB\<close> then
  answers with it without a query; eight days later the lookup returns the empty string,
  which is a miss.  A missing file and an unreadable file give the empty string as well.
\<close>

theorem getCachedIconPathWithTTL_window:
  fixes fs :: FileSystem and T :: int and home pkg hint :: string
  assumes "hint \<noteq> []"
    and "TrimSpace hint = hint \<or> hint = parseIconFromPMDump visit0 out"
  defines "fs' \<equiv> snd (saveIconPathCache True fs T home pkg hint)"
  shows "getCachedIconPathWithTTL fs' (T + 6 * day) home pkg = hint
       \<and> getIconPathViaADB ok visit fs' (T + 6 * day) home pkg rish = (Inr hint, fs')
       \<and> getCachedIconPathWithTTL fs' (T + 8 * day) home pkg = []
       \<and> (fs (getIconPathCachePath home pkg) = None
            \<longrightarrow> getCachedIconPathWithTTL fs now home pkg = [])
       \<and> (\<forall>info. fs (getIconPathCachePath home pkg) = Some info \<and> \<not> readable info
            \<longrightarrow> getCachedIconPathWithTTL fs now home pkg = [])"
proof -
  have tr: "TrimSpace hint = hint"
    using assms(1,2) parseIconFromPMDump_trimmed by metis
  have stored: "fs' (getIconPathCachePath home pkg)
                = Some \<lparr>ModTime = T, content = hint, readable = True\<rparr>"
    by (simp add: fs'_def saveIconPathCache_def)
  have six: "Since (T + 6 * day) T = 6 * day"
    by (simp add: Since_def day_def)
  have eight: "Since (T + 8 * day) T = 8 * day"
    by (simp add: Since_def day_def)
  have hit: "getCachedIconPathWithTTL fs' (T + 6 * day) home pkg = hint"
    using stored six tr
    by (simp add: getCachedIconPathWithTTL_def day_def iconPathCacheTTL_def)
  have via: "getIconPathViaADB ok visit fs' (T + 6 * day) home pkg rish = (Inr hint, fs')"
    using hit assms(1) by (simp add: getIconPathViaADB_def)
  have miss: "getCachedIconPathWithTTL fs' (T + 8 * day) home pkg = []"
    using stored eight
    by (simp add: getCachedIconPathWithTTL_def day_def iconPathCacheTTL_def)
  have absent: "fs (getIconPathCachePath home pkg) = None
      \<longrightarrow> getCachedIconPathWithTTL fs now home pkg = []"
    by (simp add: getCachedIconPathWithTTL_def)
  have unreadable: "\<forall>info. fs (getIconPathCachePath home pkg) = Some info \<and> \<not> readable info
      \<longrightarrow> getCachedIconPathWithTTL fs now home pkg = []"
    by (simp add: getCachedIconPathWithTTL_def)
  from hit via miss absent unreadable show ?thesis by blast
qed

theorem getCachedIconPathWithTTL_window_witness:
  "parseIconFromPMDump densityMap iconDump = ''res/mipmap-xxhdpi/ic_launcher.png''
   \<and> fst (getIconPathViaADB True densityMap Map.empty 1000 ''/home/u'' ''com.x'' (Inr iconDump))
       = Inr ''res/mipmap-xxhdpi/ic_launcher.png''
   \<and> snd (getIconPathViaADB True densityMap Map.empty 1000 ''/home/u'' ''com.x'' (Inr iconDump))
       = snd (saveIconPathCache True Map.empty 1000 ''/home/u'' ''com.x''
                ''res/mipmap-xxhdpi/ic_launcher.png'')
   \<and> getCachedIconPathWithTTL
        (snd (saveIconPathCache True Map.empty 1000 ''/home/u'' ''com.x''
                ''res/mipmap-xxhdpi/ic_launcher.png''))
        (1000 + 6 * day) ''/home/u'' ''com.x'' = ''res/mipmap-xxhdpi/ic_launcher.png''
   \<and> getCachedIconPathWithTTL
        (snd (saveIconPathCache True Map.empty 1000 ''/home/u'' ''com.x''
                ''res/mipmap-xxhdpi/ic_launcher.png''))
        (1000 + 8 * day) ''/home/u'' ''com.x'' = []
   \<and> (Map.empty :: FileSystem) (getIconPathCachePath ''/home/u'' ''com.x'') = None
   \<and> getCachedIconPathWithTTL Map.empty 1000 ''/home/u'' ''com.x'' = []"
proof -
  have p: "parseIconFromPMDump densityMap iconDump = ''res/mipmap-xxhdpi/ic_launcher.png''"
    by code_simp
  have ne: "''res/mipmap-xxhdpi/ic_launcher.png'' \<noteq> []" by simp
  have src: "TrimSpace ''res/mipmap-xxhdpi/ic_launcher.png'' = ''res/mipmap-xxhdpi/ic_launcher.png''
           \<or> ''res/mipmap-xxhdpi/ic_launcher.png'' = parseIconFromPMDump densityMap iconDump"
    using p by simp
  have w: "getIconPathViaADB True densityMap Map.empty 1000 ''/home/u'' ''com.x'' (Inr iconDump)
       = (Inr ''res/mipmap-xxhdpi/ic_launcher.png'',
          snd (saveIconPathCache True Map.empty 1000 ''/home/u'' ''com.x''
                ''res/mipmap-xxhdpi/ic_launcher.png''))"
    by (simp add: getIconPathViaADB_def getCachedIconPathWithTTL_def p Let_def)
  from getCachedIconPathWithTTL_window [OF ne src, of Map.empty 1000 "''/home/u''" "''com.x''"]
    p w
  show ?thesis by simp
qed

section \<open>Properties of the render cache\<close>

subsection \<open>The cache key\<close>

lemma digits_chars: "c \<in> set (digits n) \<Longrightarrow> isDigit c"
proof (induction n rule: digits.induct)
  case (1 n)
  show ?case
  proof (cases "n < 10")
    case True
    with "1.prems" have "c = char_of (48 + n)" by (simp add: digits.simps[of n])
    with True show ?thesis by (simp add: isDigit_def)
  next
    case False
    with "1.prems" consider "c \<in> set (digits (n div 10))" | "c = char_of (48 + n mod 10)"
      by (auto simp: digits.simps[of n])
    then show ?thesis
    proof cases
      case 1
      with "1.IH" False show ?thesis by simp
    next
      case 2
      have "n mod 10 < 10" by simp
      then have "48 + n mod 10 < 256" by linarith
      with 2 show ?thesis by (simp add: isDigit_def)
    qed
  qed
qed

lemma digitsVal_snoc: "digitsVal (ds @ [c]) = 10 * digitsVal ds + (int (of_char c) - 48)"
  by (simp add: digitsVal_def)

lemma digitsVal_digits: "digitsVal (digits n) = int n"
proof (induction n rule: digits.induct)
  case (1 n)
  show ?case
  proof (cases "n < 10")
    case True
    then show ?thesis by (simp add: digits.simps[of n] digitsVal_def)
  next
    case False
    have "n mod 10 < 10" by simp
    then have "(48 + n mod 10) mod 256 = 48 + n mod 10" by simp
    then have "int (of_char (char_of (48 + n mod 10) :: char)) - 48 = int (n mod 10)"
      by simp
    moreover have "10 * int (n div 10) + int (n mod 10) = int n" by presburger
    ultimately show ?thesis using False "1.IH"
      by (simp add: digits.simps[of n] digitsVal_snoc)
  qed
qed

lemma digits_inj: "digits m = digits n \<Longrightarrow> m = n"
  by (metis digitsVal_digits of_nat_eq_iff)

lemma digits_nonempty: "digits n \<noteq> []"
  by (simp add: digits.simps[of n])

lemma digits_no_minus: "hd (digits n) \<noteq> CHR ''-''"
proof -
  have "hd (digits n) \<in> set (digits n)" using digits_nonempty by simp
  then have "isDigit (hd (digits n))" by (rule digits_chars)
  then show ?thesis by (auto simp: isDigit_def)
qed

lemma itoa_inj: "itoa i = itoa j \<Longrightarrow> i = j"
proof -
  assume e: "itoa i = itoa j"
  consider "i < 0" "j < 0" | "i < 0" "\<not> j < 0" | "\<not> i < 0" "j < 0" | "\<not> i < 0" "\<not> j < 0"
    by blast
  then show ?thesis
  proof cases
    case 1
    with e have "digits (nat (- i)) = digits (nat (- j))" by (simp add: itoa_def)
    then have "nat (- i) = nat (- j)" by (rule digits_inj)
    with 1 show ?thesis by simp
  next
    case 2
    with e have "CHR ''-'' # digits (nat (- i)) = digits (nat j)" by (simp add: itoa_def)
    then have "hd (digits (nat j)) = CHR ''-''" by (metis list.sel(1))
    then show ?thesis using digits_no_minus by blast
  next
    case 3
    with e have "CHR ''-'' # digits (nat (- j)) = digits (nat i)" by (simp add: itoa_def)
    then have "hd (digits (nat i)) = CHR ''-''" by (metis list.sel(1))
    then show ?thesis using digits_no_minus by blast
  next
    case 4
    with e have "digits (nat i) = digits (nat j)" by (simp add: itoa_def)
    then have "nat i = nat j" by (rule digits_inj)
    with 4 show ?thesis by simp
  qed
qed

lemma itoa_no_underscore: "CHR ''_'' \<notin> set (itoa i)"
proof
  assume "CHR ''_'' \<in> set (itoa i)"
  then have "CHR ''_'' \<in> set (digits (nat (- i))) \<or> CHR ''_'' \<in> set (digits (nat i))"
    by (auto simp: itoa_def split: if_splits)
  then have "isDigit CHR ''_''" using digits_chars by blast
  then show False by (simp add: isDigit_def)
qed

lemma split_at_first:
  "x \<notin> set a \<Longrightarrow> x \<notin> set b \<Longrightarrow> a @ x # r = b @ x # r' \<Longrightarrow> a = b \<and> r = r'"
proof (induction a arbitrary: b)
  case Nil
  then show ?case by (cases b) auto
next
  case (Cons c a)
  then show ?case by (cases b) auto
qed

lemma split_at_underscore:
  "itoa a @ CHR ''_'' # r = itoa b @ CHR ''_'' # r' \<Longrightarrow> itoa a = itoa b \<and> r = r'"
  using split_at_first[OF itoa_no_underscore itoa_no_underscore] .

lemma sixelKey_inj:
  "sixelKey fmt2 i w h sc = sixelKey fmt2 i' w' h' sc'
     \<longleftrightarrow> i = i' \<and> w = w' \<and> h = h' \<and> fmt2 sc = fmt2 sc'"
proof
  assume "sixelKey fmt2 i w h sc = sixelKey fmt2 i' w' h' sc'"
  then have e: "itoa i @ CHR ''_'' # (itoa w @ CHR ''_'' # (itoa h @ CHR ''_'' # fmt2 sc))
              = itoa i' @ CHR ''_'' # (itoa w' @ CHR ''_'' # (itoa h' @ CHR ''_'' # fmt2 sc'))"
    by (simp add: sixelKey_def)
  from split_at_underscore[OF e] have 1: "itoa i = itoa i'"
    and e2: "itoa w @ CHR ''_'' # (itoa h @ CHR ''_'' # fmt2 sc)
           = itoa w' @ CHR ''_'' # (itoa h' @ CHR ''_'' # fmt2 sc')" by simp_all
  from split_at_underscore[OF e2] have 2: "itoa w = itoa w'"
    and e3: "itoa h @ CHR ''_'' # fmt2 sc = itoa h' @ CHR ''_'' # fmt2 sc'" by simp_all
  from split_at_underscore[OF e3] 1 2
  have "itoa i = itoa i' \<and> itoa w = itoa w' \<and> itoa h = itoa h' \<and> fmt2 sc = fmt2 sc'"
    by simp
  then show "i = i' \<and> w = w' \<and> h = h' \<and> fmt2 sc = fmt2 sc'"
    using itoa_inj by blast
next
  assume "i = i' \<and> w = w' \<and> h = h' \<and> fmt2 sc = fmt2 sc'"
  then show "sixelKey fmt2 i w h sc = sixelKey fmt2 i' w' h' sc'"
    by (simp add: sixelKey_def)
qed

lemma RenderSixelWithDimensions_calls:
  "snd (RenderSixelWithDimensions encode img w h c) \<le> 1"
  by (simp add: RenderSixelWithDimensions_def Let_def split: option.splits)

lemma lookup_total:
  assumes "0 \<le> i"
  shows "\<exists>r m1 n. getSixelContentWithDimensions fmt2 encode m i w h sc = Inr (r, m1, n)
           \<and> n \<le> 1 \<and> SixelCache m1 (sixelKey fmt2 i w h sc) = Some r
           \<and> (\<forall>k. k \<noteq> sixelKey fmt2 i w h sc \<longrightarrow> SixelCache m1 k = SixelCache m k)
           \<and> (SixelCache m (sixelKey fmt2 i w h sc) \<noteq> None \<longrightarrow> m1 = m \<and> n = 0)"
proof (cases "SixelCache m (sixelKey fmt2 i w h sc)")
  case (Some cached)
  then show ?thesis by (simp add: getSixelContentWithDimensions_def)
next
  case None
  show ?thesis
  proof (cases "if i < int (length (Icons m)) then Icons m ! nat i else None")
    case n: None
    with None assms show ?thesis
      by (simp add: getSixelContentWithDimensions_def Let_def)
  next
    case (Some img)
    obtain r n where rn: "RenderSixelWithDimensions encode img w h (CellPx m) = (r, n)"
      by (cases "RenderSixelWithDimensions encode img w h (CellPx m)") auto
    have "n \<le> 1" using RenderSixelWithDimensions_calls[of encode img w h "CellPx m"] rn by simp
    with None Some rn assms show ?thesis
      by (simp add: getSixelContentWithDimensions_def Let_def)
  qed
qed

lemma lookup_hit:
  "SixelCache m (sixelKey fmt2 i w h sc) = Some r \<Longrightarrow>
   getSixelContentWithDimensions fmt2 encode m i w h sc = Inr (r, m, 0)"
  by (simp add: getSixelContentWithDimensions_def)


subsection \<open>Lookups and the invariant\<close>

lemma Update_cacheUnder:
  "cacheUnder fmt2 encode m \<Longrightarrow> cacheUnder fmt2 encode (fst (Update m msg))"
  by (cases msg) (auto simp: Update_def cacheUnder_def ClearCache_def Let_def)

lemma lookup_cacheUnder:
  assumes "cacheUnder fmt2 encode m"
    and "getSixelContentWithDimensions fmt2 encode m i w h sc = Inr (r, m', n)"
  shows "cacheUnder fmt2 encode m'"
proof (cases "SixelCache m (sixelKey fmt2 i w h sc)")
  case (Some cached)
  with assms show ?thesis by (simp add: getSixelContentWithDimensions_def)
next
  case None
  have pos: "\<not> i < 0" using None assms(2)
    by (auto simp: getSixelContentWithDimensions_def Let_def split: if_splits)
  have new: "entryUnder fmt2 encode (CellPx m) (sixelKey fmt2 i w h sc) r
             \<and> m' = m\<lparr>SixelCache := (SixelCache m)(sixelKey fmt2 i w h sc \<mapsto> r)\<rparr>"
  proof (cases "if i < int (length (Icons m)) then Icons m ! nat i else None")
    case n: None
    with None assms(2) pos
    have "r = emptySixelResult"
      and "m' = m\<lparr>SixelCache := (SixelCache m)(sixelKey fmt2 i w h sc \<mapsto> r)\<rparr>"
      by (auto simp: getSixelContentWithDimensions_def Let_def)
    then show ?thesis unfolding entryUnder_def by blast
  next
    case (Some img)
    obtain r0 n0 where rn: "RenderSixelWithDimensions encode img w h (CellPx m) = (r0, n0)"
      by (cases "RenderSixelWithDimensions encode img w h (CellPx m)") auto
    with Some None assms(2) pos
    have "r = r0"
      and "m' = m\<lparr>SixelCache := (SixelCache m)(sixelKey fmt2 i w h sc \<mapsto> r)\<rparr>"
      by (auto simp: getSixelContentWithDimensions_def Let_def)
    moreover from \<open>r = r0\<close> rn
    have "r = fst (RenderSixelWithDimensions encode img w h (CellPx m))" by simp
    ultimately show ?thesis unfolding entryUnder_def by blast
  qed
  with assms(1) show ?thesis by (auto simp: cacheUnder_def)
qed

lemma reachable_cacheUnder:
  "reachable fmt2 encode cfg m \<Longrightarrow> cacheUnder fmt2 encode m"
proof (induction rule: reachable.induct)
  case start
  then show ?case by (simp add: cacheUnder_def NewModel_def Let_def)
next
  case (update m msg)
  from update.IH show ?case by (rule Update_cacheUnder)
next
  case (lookup m index widthCells heightCells scale result m' calls)
  from lookup.IH lookup.hyps(2) show ?case by (rule lookup_cacheUnder)
qed


lemma readyModel_eval:
  "readyModel = (NewModel (Config example_model))
     \<lparr>CellPx := \<lparr>CellW = 10, CellH = 20\<rparr>, Ready := True, SixelCache := Map.empty,
      SixelsDrawn := False, Icons := [Some 7, Some 8, None]\<rparr>"
  by (simp add: readyModel_def Update_def ClearCache_def NewModel_def Let_def)

lemma readyModel_fields:
  "SixelCache readyModel = Map.empty" "Icons readyModel = [Some 7, Some 8, None]"
  "CellPx readyModel = \<lparr>CellW = 10, CellH = 20\<rparr>"
  by (simp_all add: readyModel_eval NewModel_def Let_def)

lemma readyModel_lookup:
  "getSixelContentWithDimensions exampleFmt2 exampleEncode readyModel 0 6 6 80
     = Inr (\<lparr>Sixel = ''sixel7'', Width = 60, Height = 120\<rparr>, drawnModel, 1)"
proof -
  have "digits 7 = ''7''" by code_simp
  then show ?thesis
    by (simp add: getSixelContentWithDimensions_def readyModel_fields Let_def drawnModel_def
      RenderSixelWithDimensions_def exampleEncode_def)
qed

lemma reachable_readyModel:
  "reachable exampleFmt2 exampleEncode (Config example_model) readyModel"
  unfolding readyModel_def by (intro reachable.update reachable.start)

lemma reachable_drawnModel:
  "reachable exampleFmt2 exampleEncode (Config example_model) drawnModel"
  using reachable.lookup[OF reachable_readyModel readyModel_lookup] .

text \<open>
  Claim C2.  A geometry message whose cell width or height differs from the one in the
  model is accepted: the model it leaves has an empty render cache, \<open>SixelsDrawn\<close> reset,
  the new cell size, and the screen is cleared.  Hence, in every state the program can
  reach, every entry of the render cache is what a miss stores under the cell size of
  that state for the dimensions of the entry's key.
\<close>

theorem geometry_change_clears_cache:
  fixes m :: "'img Model" and fmt2 :: "'s \<Rightarrow> string"
  shows "(\<forall>n :: 'img Model. \<forall>d.
            CellW d \<noteq> CellW (CellPx n) \<or> CellH d \<noteq> CellH (CellPx n)
            \<longrightarrow> SixelCache (fst (Update n (terminalGeometryMsg d))) = Map.empty
              \<and> \<not> SixelsDrawn (fst (Update n (terminalGeometryMsg d)))
              \<and> CellPx (fst (Update n (terminalGeometryMsg d))) = d
              \<and> snd (Update n (terminalGeometryMsg d)) = ClearScreen)
       \<and> (reachable fmt2 encode cfg m
            \<longrightarrow> (\<forall>k r. SixelCache m k = Some r \<longrightarrow> entryUnder fmt2 encode (CellPx m) k r))"
proof -
  have step: "\<forall>n :: 'img Model. \<forall>d.
            CellW d \<noteq> CellW (CellPx n) \<or> CellH d \<noteq> CellH (CellPx n)
            \<longrightarrow> SixelCache (fst (Update n (terminalGeometryMsg d))) = Map.empty
              \<and> \<not> SixelsDrawn (fst (Update n (terminalGeometryMsg d)))
              \<and> CellPx (fst (Update n (terminalGeometryMsg d))) = d
              \<and> snd (Update n (terminalGeometryMsg d)) = ClearScreen"
    by (auto simp: Update_def ClearCache_def)
  have inv: "reachable fmt2 encode cfg m
            \<longrightarrow> (\<forall>k r. SixelCache m k = Some r \<longrightarrow> entryUnder fmt2 encode (CellPx m) k r)"
    using reachable_cacheUnder[of fmt2 encode cfg m] by (simp add: cacheUnder_def)
  from step inv show ?thesis by blast
qed

theorem geometry_change_clears_cache_witness:
  "reachable exampleFmt2 exampleEncode (Config example_model) drawnModel
   \<and> SixelCache drawnModel (sixelKey exampleFmt2 0 6 6 80)
       = Some \<lparr>Sixel = ''sixel7'', Width = 60, Height = 120\<rparr>
   \<and> entryUnder exampleFmt2 exampleEncode (CellPx drawnModel) (sixelKey exampleFmt2 0 6 6 80)
       \<lparr>Sixel = ''sixel7'', Width = 60, Height = 120\<rparr>
   \<and> CellW \<lparr>CellW = 12, CellH = 24\<rparr> \<noteq> CellW (CellPx drawnModel)
   \<and> SixelCache (fst (Update drawnModel (terminalGeometryMsg \<lparr>CellW = 12, CellH = 24\<rparr>)))
       = Map.empty
   \<and> \<not> SixelsDrawn (fst (Update drawnModel (terminalGeometryMsg \<lparr>CellW = 12, CellH = 24\<rparr>)))"
proof -
  have c: "SixelCache drawnModel (sixelKey exampleFmt2 0 6 6 80)
       = Some \<lparr>Sixel = ''sixel7'', Width = 60, Height = 120\<rparr>"
    by (simp add: drawnModel_def)
  have g: "CellW \<lparr>CellW = 12, CellH = 24\<rparr> \<noteq> CellW (CellPx drawnModel)"
    by (simp add: drawnModel_def readyModel_fields)
  note t = geometry_change_clears_cache
    [of exampleFmt2 exampleEncode "Config example_model" drawnModel]
  from t reachable_drawnModel c
  have "entryUnder exampleFmt2 exampleEncode (CellPx drawnModel) (sixelKey exampleFmt2 0 6 6 80)
       \<lparr>Sixel = ''sixel7'', Width = 60, Height = 120\<rparr>" by blast
  moreover from t g
  have "SixelCache (fst (Update drawnModel (terminalGeometryMsg \<lparr>CellW = 12, CellH = 24\<rparr>)))
       = Map.empty
     \<and> \<not> SixelsDrawn (fst (Update drawnModel (terminalGeometryMsg \<lparr>CellW = 12, CellH = 24\<rparr>)))"
    by blast
  ultimately show ?thesis using reachable_drawnModel c g by blast
qed

text \<open>
  Claim C5.  A lookup with a non-negative index returns a result, calling the encoder at
  most once; a second lookup whose index, width, height and formatted scale are the same
  returns the same result from the cache, without a call of the encoder and without
  changing the model.  A lookup that differs in one of the four fields has a different
  key, and finds under its key only what the cache held before the first lookup: it
  misses what the first lookup stored.
\<close>

theorem render_cache_key_equality:
  fixes m :: "'img Model" and fmt2 :: "'s \<Rightarrow> string"
  assumes "0 \<le> index"
  shows "\<exists>r m1 n. getSixelContentWithDimensions fmt2 encode m index w h sc = Inr (r, m1, n)
           \<and> n \<le> 1
           \<and> (\<forall>sc'. fmt2 sc' = fmt2 sc
                 \<longrightarrow> getSixelContentWithDimensions fmt2 encode m1 index w h sc' = Inr (r, m1, 0))
           \<and> (\<forall>i' w' h' sc'. i' \<noteq> index \<or> w' \<noteq> w \<or> h' \<noteq> h \<or> fmt2 sc' \<noteq> fmt2 sc
                 \<longrightarrow> sixelKey fmt2 i' w' h' sc' \<noteq> sixelKey fmt2 index w h sc
                   \<and> SixelCache m1 (sixelKey fmt2 i' w' h' sc')
                       = SixelCache m (sixelKey fmt2 i' w' h' sc'))"
proof -
  from lookup_total[OF assms, of fmt2 encode m w h sc] obtain r m1 n where
    l: "getSixelContentWithDimensions fmt2 encode m index w h sc = Inr (r, m1, n)" "n \<le> 1"
       "SixelCache m1 (sixelKey fmt2 index w h sc) = Some r"
       "\<forall>k. k \<noteq> sixelKey fmt2 index w h sc \<longrightarrow> SixelCache m1 k = SixelCache m k"
    by blast
  have again: "\<forall>sc'. fmt2 sc' = fmt2 sc
      \<longrightarrow> getSixelContentWithDimensions fmt2 encode m1 index w h sc' = Inr (r, m1, 0)"
  proof (intro allI impI)
    fix sc' assume "fmt2 sc' = fmt2 sc"
    then have "sixelKey fmt2 index w h sc' = sixelKey fmt2 index w h sc"
      by (simp add: sixelKey_inj)
    with l(3) show "getSixelContentWithDimensions fmt2 encode m1 index w h sc' = Inr (r, m1, 0)"
      by (simp add: lookup_hit)
  qed
  have other: "\<forall>i' w' h' sc'. i' \<noteq> index \<or> w' \<noteq> w \<or> h' \<noteq> h \<or> fmt2 sc' \<noteq> fmt2 sc
                 \<longrightarrow> sixelKey fmt2 i' w' h' sc' \<noteq> sixelKey fmt2 index w h sc
                   \<and> SixelCache m1 (sixelKey fmt2 i' w' h' sc')
                       = SixelCache m (sixelKey fmt2 i' w' h' sc')"
  proof (intro allI impI)
    fix i' w' h' sc'
    assume "i' \<noteq> index \<or> w' \<noteq> w \<or> h' \<noteq> h \<or> fmt2 sc' \<noteq> fmt2 sc"
    then have "sixelKey fmt2 i' w' h' sc' \<noteq> sixelKey fmt2 index w h sc"
      by (auto simp: sixelKey_inj)
    with l(4) show "sixelKey fmt2 i' w' h' sc' \<noteq> sixelKey fmt2 index w h sc
                   \<and> SixelCache m1 (sixelKey fmt2 i' w' h' sc')
                       = SixelCache m (sixelKey fmt2 i' w' h' sc')" by simp
  qed
  from l(1,2) again other show ?thesis by blast
qed

theorem render_cache_key_equality_witness:
  "(0::int) \<le> 0
   \<and> getSixelContentWithDimensions exampleFmt2 exampleEncode readyModel 0 6 6 80
       = Inr (\<lparr>Sixel = ''sixel7'', Width = 60, Height = 120\<rparr>, drawnModel, 1)
   \<and> getSixelContentWithDimensions exampleFmt2 exampleEncode drawnModel 0 6 6 80
       = Inr (\<lparr>Sixel = ''sixel7'', Width = 60, Height = 120\<rparr>, drawnModel, 0)
   \<and> exampleFmt2 80 \<noteq> exampleFmt2 75
   \<and> SixelCache drawnModel (sixelKey exampleFmt2 0 6 6 75) = None"
proof -
  have z: "(0::int) \<le> 0" by simp
  from render_cache_key_equality [OF z, of exampleFmt2 exampleEncode readyModel 6 6 80]
    readyModel_lookup
  have again: "\<forall>sc'. exampleFmt2 sc' = exampleFmt2 80
      \<longrightarrow> getSixelContentWithDimensions exampleFmt2 exampleEncode drawnModel 0 6 6 sc'
            = Inr (\<lparr>Sixel = ''sixel7'', Width = 60, Height = 120\<rparr>, drawnModel, 0)"
    and other: "\<forall>i' w' h' sc'. i' \<noteq> 0 \<or> w' \<noteq> 6 \<or> h' \<noteq> 6 \<or> exampleFmt2 sc' \<noteq> exampleFmt2 80
      \<longrightarrow> sixelKey exampleFmt2 i' w' h' sc' \<noteq> sixelKey exampleFmt2 0 6 6 80
        \<and> SixelCache drawnModel (sixelKey exampleFmt2 i' w' h' sc')
            = SixelCache readyModel (sixelKey exampleFmt2 i' w' h' sc')"
    by auto
  have d: "exampleFmt2 80 \<noteq> exampleFmt2 75" by code_simp
  from other d have "SixelCache drawnModel (sixelKey exampleFmt2 0 6 6 75)
            = SixelCache readyModel (sixelKey exampleFmt2 0 6 6 75)" by metis
  then have "SixelCache drawnModel (sixelKey exampleFmt2 0 6 6 75) = None"
    by (simp add: readyModel_fields)
  with z readyModel_lookup again d show ?thesis by simp
qed

section \<open>Properties of the grid hit test\<close>

lemma go_quot_past_grid:
  assumes "0 < w" and "n * w \<le> x" and "0 \<le> n"
  shows "n \<le> go_quot x w"
proof -
  have "0 \<le> n * w" using assms by simp
  then have x0: "0 \<le> x" using assms by linarith
  have "n = (n * w) div w" using assms by simp
  also have "\<dots> \<le> x div w" using assms by (intro zdiv_mono1) auto
  finally show ?thesis using x0 assms by (simp add: go_quot_nonneg)
qed

lemma go_quot_before_grid:
  assumes "0 < w" and "x \<le> - w"
  shows "go_quot x w < 0"
proof -
  have "1 = w div w" using assms by simp
  also have "\<dots> \<le> (- x) div w" using assms by (intro zdiv_mono1) auto
  finally show ?thesis using assms by (simp add: go_quot_neg)
qed

text \<open>
  Claim C10.  The hit test is meant to return \<open>-1\<close> for every coordinate outside the grid,
  negative coordinates included, and the code guards the column and the row with
  \<open>col < 0\<close> and \<open>row < 0\<close>.  The guards never fire for a coordinate less than one cell
  before the origin: Go's integer division truncates towards zero, so \<open>-1 / 10\<close> is \<open>0\<close>.
  In a one-row, five-column grid on a 50 by 11 terminal (cells of 10 by 10) with three
  display apps, the point \<open>(-1, 3)\<close> left of the grid and the point \<open>(3, -1)\<close> above it
  both hit the app of index 0, while \<open>(-10, 3)\<close>, one whole cell to the left, gives \<open>-1\<close>.
\<close>

theorem HitTest_negative_coordinate:
  "GridCellSize example_model = (10, 10)
   \<and> go_quot (- 1) 10 = 0
   \<and> HitTest example_model (- 1) 3 = 0
   \<and> HitTest example_model 3 (- 1) = 0
   \<and> HitTest example_model (- 10) 3 = - 1
   \<and> length (DisplayApps example_model) = 3"
  by (simp add: HitTest_def GridCellSize_def example_model_def go_quot_def)

text \<open>
  What the hit test does guarantee.  For every model and every coordinate pair, \<open>HitTest\<close>
  returns \<open>-1\<close> or an index \<open>i\<close> with \<open>0 \<le> i < len(DisplayApps)\<close>.  A coordinate whose
  column \<open>x / cellW\<close> or row \<open>y / cellH\<close> (Go's truncating division) lies outside the
  configured range, and a cell whose index is not below the number of display apps, give
  \<open>-1\<close>; in particular every coordinate at or past the right or bottom edge of the grid
  and every coordinate at least one cell before its origin gives \<open>-1\<close>.  A non-negative
  result is therefore a valid position of \<open>DisplayApps\<close>, and of \<open>Icons\<close> whenever the two
  slices have the same length (as \<open>NewModel\<close> and \<open>loadIcons\<close> make them).
\<close>

lemma HitTest_safe_index:
  fixes m :: "'img Model"
  defines "cw \<equiv> fst (GridCellSize m)" and "ch \<equiv> snd (GridCellSize m)"
  defines "cols \<equiv> Columns (Grid (Config m))" and "rws \<equiv> Rows (Grid (Config m))"
  shows "(HitTest m x y = - 1 \<or>
            (0 \<le> HitTest m x y \<and> HitTest m x y < int (length (DisplayApps m))))
       \<and> (go_quot x cw < 0 \<or> cols \<le> go_quot x cw \<or> go_quot y ch < 0 \<or> rws \<le> go_quot y ch
             \<longrightarrow> HitTest m x y = - 1)
       \<and> (int (length (DisplayApps m)) \<le> go_quot y ch * cols + go_quot x cw
             \<longrightarrow> HitTest m x y = - 1)
       \<and> (cols * cw \<le> x \<or> rws * ch \<le> y \<or> x \<le> - cw \<or> y \<le> - ch \<longrightarrow> HitTest m x y = - 1)
       \<and> (0 \<le> HitTest m x y \<and> length (Icons m) = length (DisplayApps m)
             \<longrightarrow> nat (HitTest m x y) < length (DisplayApps m)
               \<and> nat (HitTest m x y) < length (Icons m))"
proof -
  have range: "HitTest m x y = - 1 \<or>
      (0 \<le> HitTest m x y \<and> HitTest m x y < int (length (DisplayApps m)))"
    by (auto simp: HitTest_def Let_def split: prod.splits)
  have outside: "go_quot x cw < 0 \<or> cols \<le> go_quot x cw \<or> go_quot y ch < 0 \<or> rws \<le> go_quot y ch
      \<Longrightarrow> HitTest m x y = - 1"
    unfolding cw_def ch_def cols_def rws_def
    by (auto simp: HitTest_def Let_def split: prod.splits)
  have beyond: "int (length (DisplayApps m)) \<le> go_quot y ch * cols + go_quot x cw
      \<Longrightarrow> HitTest m x y = - 1"
    unfolding cw_def ch_def cols_def rws_def
    by (auto simp: HitTest_def Let_def split: prod.splits)
  have geom: "HitTest m x y = - 1"
    if g: "cols * cw \<le> x \<or> rws * ch \<le> y \<or> x \<le> - cw \<or> y \<le> - ch"
  proof (cases "cw \<le> 0 \<or> ch \<le> 0")
    case True
    then show ?thesis
      unfolding cw_def ch_def by (auto simp: HitTest_def Let_def split: prod.splits)
  next
    case False
    then have pos: "0 < cw" "0 < ch" by auto
    have grid: "0 < cols" "0 < rws"
      using pos unfolding cw_def ch_def cols_def rws_def GridCellSize_def
      by (auto split: if_splits)
    from g consider "cols * cw \<le> x" | "rws * ch \<le> y" | "x \<le> - cw" | "y \<le> - ch" by blast
    then show ?thesis
    proof cases
      case 1
      then have "cols \<le> go_quot x cw" using pos grid by (intro go_quot_past_grid) auto
      then show ?thesis using outside by blast
    next
      case 2
      then have "rws \<le> go_quot y ch" using pos grid by (intro go_quot_past_grid) auto
      then show ?thesis using outside by blast
    next
      case 3
      then have "go_quot x cw < 0" using pos by (intro go_quot_before_grid) auto
      then show ?thesis using outside by blast
    next
      case 4
      then have "go_quot y ch < 0" using pos by (intro go_quot_before_grid) auto
      then show ?thesis using outside by blast
    qed
  qed
  have idx: "nat (HitTest m x y) < length (DisplayApps m) \<and> nat (HitTest m x y) < length (Icons m)"
    if "0 \<le> HitTest m x y \<and> length (Icons m) = length (DisplayApps m)"
    using range that by auto
  show ?thesis using range outside beyond geom idx by blast
qed


lemma HitTest_safe_index_example:
  "HitTest example_model 12 3 = 1 \<and> nat (HitTest example_model 12 3) < length (Icons example_model)
   \<and> 5 * fst (GridCellSize example_model) \<le> 60 \<and> HitTest example_model 60 3 = - 1
   \<and> int (length (DisplayApps example_model)) \<le> go_quot 3 10 * 5 + go_quot 42 10
   \<and> HitTest example_model 42 3 = - 1"
  using HitTest_safe_index [of example_model 12 3] HitTest_safe_index [of example_model 60 3]
    HitTest_safe_index [of example_model 42 3]
  by (simp add: HitTest_def GridCellSize_def example_model_def go_quot_def)

end
